theory Spec2Isabelle
  imports Complex_Main
begin

section \<open>Comparing various online solvers: the held-out proportion sweep\<close>

text \<open>
  The program is the notebook exported as
  \<^verbatim>\<open>_posts/scikit/Comparing-various-online-solvers/2015-06-30-Comparing Various Online Solvers.html\<close>.
  Cell In[3] fixes the configuration and cell In[4] runs the sweep:
  \<^verbatim>\<open>
  heldout = [0.95, 0.90, 0.75, 0.50, 0.01]
  rounds = 20
  digits = datasets.load_digits()
  X, y = digits.data, digits.target
  classifiers = [("SGD", SGDClassifier()), ...]
  xx = 1. - np.array(heldout)

  data = []
  for name, clf in classifiers:
      print("training %s" % name)
      rng = np.random.RandomState(42)
      yy = []
      for i in heldout:
          yy_ = []
          for r in range(rounds):
              X_train, X_test, y_train, y_test = \
                  train_test_split(X, y, test_size=i, random_state=rng)
              clf.fit(X_train, y_train)
              y_pred = clf.predict(X_test)
              yy_.append(1 - np.mean(y_pred == y_test))
          yy.append(np.mean(yy_))
      trace = go.Scatter(x=xx, y=yy, mode='lines', name=name)
      data.append(trace)
  \<close>
  The loops, the accumulation and the averaging are the notebook's own code. The random
  generator, the splitter and the classifiers belong to numpy and scikit-learn; they are
  parameters of the model.
\<close>

subsection \<open>numpy values\<close>

text \<open>
  A numpy float is modelled as an exact real, or \<open>None\<close> for \<open>nan\<close>. Rounding of
  floating-point sums is not modelled.
\<close>

type_synonym npfloat = "real option"

text \<open>
  \<^verbatim>\<open>np.mean\<close> of an empty array is \<open>nan\<close> (numpy warns and does not raise); a
  \<open>nan\<close> element makes the mean \<open>nan\<close>.
\<close>

definition np_mean :: "npfloat list \<Rightarrow> npfloat" where
  "np_mean a =
     (if a = [] \<or> None \<in> set a then None
      else Some (sum_list (map the a) / real (length a)))"

text \<open>Taking the mean of a boolean array counts \<open>True\<close> as 1.0 and \<open>False\<close> as 0.0.\<close>

definition as_float :: "bool \<Rightarrow> npfloat" where
  "as_float b = Some (if b then 1 else 0)"

text \<open>
  \<^verbatim>\<open>y_pred == y_test\<close> on one-dimensional arrays: elementwise on equal lengths, an
  array of length one is broadcast, and on any other pair of lengths the numpy of the
  notebook's time gives the scalar \<open>False\<close> (with a deprecation warning), whose mean is
  that of the one-element array.
\<close>

definition np_eq :: "'l list \<Rightarrow> 'l list \<Rightarrow> bool list" where
  "np_eq a b =
     (if length a = length b then map2 (=) a b
      else if length a = 1 then map (\<lambda>v. hd a = v) b
      else if length b = 1 then map (\<lambda>u. u = hd b) a
      else [False])"

text \<open>\<^verbatim>\<open>1 - m\<close> for a numpy float \<open>m\<close>.\<close>

definition one_minus :: "npfloat \<Rightarrow> npfloat" where
  "one_minus m = (case m of None \<Rightarrow> None | Some v \<Rightarrow> Some (1 - v))"

subsection \<open>The libraries the notebook calls\<close>

text \<open>
  \<open>'x\<close> is a feature vector, \<open>'l\<close> a label, \<open>'c\<close> the state of a classifier object,
  \<open>'g\<close> the state of a \<^verbatim>\<open>RandomState\<close>, \<open>'e\<close> an exception, and \<open>'w\<close> the ambient
  state a classifier may read and change besides its own (numpy's global generator, which
  \<^verbatim>\<open>SGDClassifier()\<close> shuffles with when it is built without a \<^verbatim>\<open>random_state\<close>).
  \<^verbatim>\<open>train_test_split\<close> is called with \<^verbatim>\<open>random_state=rng\<close>: it reads and advances
  that generator only, and returns \<^verbatim>\<open>(X_train, X_test, y_train, y_test)\<close>.
  \<^verbatim>\<open>fit\<close> mutates the classifier; \<^verbatim>\<open>predict\<close> reads it. Each of the three may raise.
\<close>

record ('x, 'l, 'c, 'g, 'e, 'w) lib =
  RandomState :: "int \<Rightarrow> 'g"
  train_test_split ::
    "'x list \<Rightarrow> 'l list \<Rightarrow> real \<Rightarrow> 'g \<Rightarrow> 'e + (('x list \<times> 'x list \<times> 'l list \<times> 'l list) \<times> 'g)"
  fit :: "'c \<Rightarrow> 'x list \<Rightarrow> 'l list \<Rightarrow> 'w \<Rightarrow> 'e + ('c \<times> 'w)"
  predict :: "'c \<Rightarrow> 'x list \<Rightarrow> 'w \<Rightarrow> 'e + ('l list \<times> 'w)"

text \<open>\<^verbatim>\<open>go.Scatter(x=xx, y=yy, mode='lines', name=name)\<close>\<close>

record scatter =
  scatter_x :: "real list"
  scatter_y :: "npfloat list"
  scatter_mode :: string
  scatter_name :: string

subsection \<open>Cell In[3]: the configuration\<close>

definition heldout :: "real list" where
  "heldout = [0.95, 0.90, 0.75, 0.50, 0.01]"

definition rounds :: int where
  "rounds = 20"

text \<open>\<^verbatim>\<open>xx = 1. - np.array(heldout)\<close>\<close>

definition xx :: "real list \<Rightarrow> real list" where
  "xx hs = map (\<lambda>h. 1 - h) hs"

subsection \<open>Cell In[4]: the sweep\<close>

text \<open>
  The error rate of one round, \<^verbatim>\<open>1 - np.mean(y_pred == y_test)\<close>.
\<close>

definition error_rate :: "'l list \<Rightarrow> 'l list \<Rightarrow> npfloat" where
  "error_rate y_pred y_test = one_minus (np_mean (map as_float (np_eq y_pred y_test)))"

text \<open>
  The body of the innermost loop, on the state \<open>(rng, clf, w)\<close>: split, fit, predict,
  and the value appended to \<^verbatim>\<open>yy_\<close>. An exception of a library call leaves the loop.
\<close>

definition round_body ::
  "('x, 'l, 'c, 'g, 'e, 'w) lib \<Rightarrow> 'x list \<Rightarrow> 'l list \<Rightarrow> real \<Rightarrow> 'g \<times> 'c \<times> 'w
     \<Rightarrow> 'e + (npfloat \<times> 'g \<times> 'c \<times> 'w)" where
  "round_body L X y i s =
     (case s of (rng, clf, w) \<Rightarrow>
      (case train_test_split L X y i rng of
         Inl e \<Rightarrow> Inl e
       | Inr ((X_train, X_test, y_train, y_test), rng') \<Rightarrow>
           (case fit L clf X_train y_train w of
              Inl e \<Rightarrow> Inl e
            | Inr (clf', w') \<Rightarrow>
                (case predict L clf' X_test w' of
                   Inl e \<Rightarrow> Inl e
                 | Inr (y_pred, w'') \<Rightarrow>
                     Inr (error_rate y_pred y_test, rng', clf', w'')))))"

text \<open>
  \<^verbatim>\<open>for r in range(rounds)\<close>, with \<open>n\<close> iterations left and \<open>yy'\<close> (the source's \<^verbatim>\<open>yy_\<close>) so far. The caller
  passes \<open>nat rounds\<close>: \<^verbatim>\<open>range\<close> of a number that is not positive is empty.
\<close>

fun rounds_loop ::
  "('x, 'l, 'c, 'g, 'e, 'w) lib \<Rightarrow> 'x list \<Rightarrow> 'l list \<Rightarrow> real \<Rightarrow> nat \<Rightarrow> 'g \<times> 'c \<times> 'w
     \<Rightarrow> npfloat list \<Rightarrow> 'e + (npfloat list \<times> 'g \<times> 'c \<times> 'w)" where
  "rounds_loop L X y i 0 s yy' = Inr (yy', s)"
| "rounds_loop L X y i (Suc n) s yy' =
     (case round_body L X y i s of
        Inl e \<Rightarrow> Inl e
      | Inr (v, s') \<Rightarrow> rounds_loop L X y i n s' (yy' @ [v]))"

text \<open>\<^verbatim>\<open>for i in heldout\<close>, with the proportions left and \<open>yy\<close> so far.\<close>

fun heldout_loop ::
  "('x, 'l, 'c, 'g, 'e, 'w) lib \<Rightarrow> 'x list \<Rightarrow> 'l list \<Rightarrow> int \<Rightarrow> real list \<Rightarrow> 'g \<times> 'c \<times> 'w
     \<Rightarrow> npfloat list \<Rightarrow> 'e + (npfloat list \<times> 'g \<times> 'c \<times> 'w)" where
  "heldout_loop L X y rnds [] s yy = Inr (yy, s)"
| "heldout_loop L X y rnds (i # is) s yy =
     (case rounds_loop L X y i (nat rnds) s [] of
        Inl e \<Rightarrow> Inl e
      | Inr (yy', s') \<Rightarrow> heldout_loop L X y rnds is s' (yy @ [np_mean yy']))"

text \<open>
  What one iteration of the outermost loop computes for its classifier, after the
  \<^verbatim>\<open>print\<close>: a new generator from the seed, an empty \<open>yy\<close>, and the two inner loops.
\<close>

definition curve ::
  "('x, 'l, 'c, 'g, 'e, 'w) lib \<Rightarrow> 'x list \<Rightarrow> 'l list \<Rightarrow> real list \<Rightarrow> int \<Rightarrow> int
     \<Rightarrow> 'c \<Rightarrow> 'w \<Rightarrow> 'e + (npfloat list \<times> 'g \<times> 'c \<times> 'w)" where
  "curve L X y hs rnds seed clf w =
     (let rng = RandomState L seed in heldout_loop L X y rnds hs (rng, clf, w) [])"

text \<open>
  \<^verbatim>\<open>for name, clf in classifiers\<close>, with the lines printed so far, \<open>data\<close> so far and
  the ambient state. What was printed stays printed when an exception ends the program.
\<close>

fun classifiers_loop ::
  "('x, 'l, 'c, 'g, 'e, 'w) lib \<Rightarrow> 'x list \<Rightarrow> 'l list \<Rightarrow> real list \<Rightarrow> int \<Rightarrow> int
     \<Rightarrow> (string \<times> 'c) list \<Rightarrow> string list \<Rightarrow> scatter list \<Rightarrow> 'w
     \<Rightarrow> string list \<times> ('e + (scatter list \<times> 'w))" where
  "classifiers_loop L X y hs rnds seed [] out data w = (out, Inr (data, w))"
| "classifiers_loop L X y hs rnds seed ((name, clf) # rest) out data w =
     (let out' = out @ [''training '' @ name]
      in case curve L X y hs rnds seed clf w of
           Inl e \<Rightarrow> (out', Inl e)
         | Inr (yy, (rng', clf', w')) \<Rightarrow>
             classifiers_loop L X y hs rnds seed rest out'
               (data @ [\<lparr>scatter_x = xx hs, scatter_y = yy,
                         scatter_mode = ''lines'', scatter_name = name\<rparr>]) w')"

text \<open>The cell, from \<^verbatim>\<open>data = []\<close> on, for any configuration.\<close>

definition sweep ::
  "('x, 'l, 'c, 'g, 'e, 'w) lib \<Rightarrow> 'x list \<Rightarrow> 'l list \<Rightarrow> real list \<Rightarrow> int \<Rightarrow> int
     \<Rightarrow> (string \<times> 'c) list \<Rightarrow> 'w \<Rightarrow> string list \<times> ('e + (scatter list \<times> 'w))" where
  "sweep L X y hs rnds seed classifiers w =
     classifiers_loop L X y hs rnds seed classifiers [] [] w"

text \<open>The cell as the notebook runs it: its own proportions and rounds, and the seed 42.\<close>

definition notebook ::
  "('x, 'l, 'c, 'g, 'e, 'w) lib \<Rightarrow> 'x list \<Rightarrow> 'l list \<Rightarrow> (string \<times> 'c) list \<Rightarrow> 'w
     \<Rightarrow> string list \<times> ('e + (scatter list \<times> 'w))" where
  "notebook L X y classifiers w = sweep L X y heldout rounds 42 classifiers w"

text \<open>The lines the outermost loop prints for a list of classifiers.\<close>

definition printed :: "(string \<times> 'c) list \<Rightarrow> string list" where
  "printed cs = map (\<lambda>nc. ''training '' @ fst nc) cs"

subsection \<open>What the sweep relies on\<close>

text \<open>
  The notebook checks nothing itself. Properties of the libraries are named here, to be
  assumed where a statement needs them. First, a split that succeeds returns as many test
  labels as test samples, and at least one (scikit-learn's test size is
  \<open>ceil(test_size * n)\<close>). Second, \<^verbatim>\<open>predict\<close> returns one label per sample.
\<close>

definition split_contract :: "('x, 'l, 'c, 'g, 'e, 'w) lib \<Rightarrow> bool" where
  "split_contract L \<longleftrightarrow>
     (\<forall>X y p g X_train X_test y_train y_test g'.
        train_test_split L X y p g = Inr ((X_train, X_test, y_train, y_test), g')
          \<longrightarrow> length X_test = length y_test \<and> y_test \<noteq> [])"

definition predict_contract :: "('x, 'l, 'c, 'g, 'e, 'w) lib \<Rightarrow> bool" where
  "predict_contract L \<longleftrightarrow>
     (\<forall>clf X_test w y_pred w'.
        predict L clf X_test w = Inr (y_pred, w') \<longrightarrow> length y_pred = length X_test)"

text \<open>
  For a test size given as a fraction, scikit-learn takes \<open>ceil(test_size * n)\<close> of the
  \<open>n\<close> samples for the test set and the rest for the training set. A split is degenerate
  when that leaves no test sample or no training sample. A library refuses degenerate
  splits when its splitter raises for them, as \<^verbatim>\<open>train_test_split\<close> does.
\<close>

definition n_test :: "nat \<Rightarrow> real \<Rightarrow> nat" where
  "n_test n p = nat \<lceil>p * real n\<rceil>"



subsection \<open>The rounds of one classifier as a schedule\<close>

text \<open>
  These definitions are not in the notebook. They describe one classifier's sweep in a
  second way, to compare the loops with: the proportions of all rounds in the order they
  run, the generator states reached by splitting alone, and the rounds run on those states.
\<close>

text \<open>The generator after one split at proportion \<open>p\<close>; a split that raises leaves it.\<close>

definition next_rng ::
  "('x, 'l, 'c, 'g, 'e, 'w) lib \<Rightarrow> 'x list \<Rightarrow> 'l list \<Rightarrow> real \<Rightarrow> 'g \<Rightarrow> 'g" where
  "next_rng L X y p g =
     (case train_test_split L X y p g of Inl e \<Rightarrow> g | Inr (parts, g') \<Rightarrow> g')"

text \<open>The generator after the splits for the proportions \<open>ps\<close>, in order.\<close>

definition rng_after ::
  "('x, 'l, 'c, 'g, 'e, 'w) lib \<Rightarrow> 'x list \<Rightarrow> 'l list \<Rightarrow> real list \<Rightarrow> 'g \<Rightarrow> 'g" where
  "rng_after L X y ps g = foldl (\<lambda>g p. next_rng L X y p g) g ps"

text \<open>The generator states from which the splits for \<open>ps\<close> are drawn, starting at \<open>g\<close>.\<close>

fun draws ::
  "('x, 'l, 'c, 'g, 'e, 'w) lib \<Rightarrow> 'x list \<Rightarrow> 'l list \<Rightarrow> real list \<Rightarrow> 'g \<Rightarrow> 'g list" where
  "draws L X y [] g = []"
| "draws L X y (p # ps) g = g # draws L X y ps (next_rng L X y p g)"

text \<open>The proportion of every round of a classifier, in the order the two inner loops run them.\<close>

definition schedule :: "real list \<Rightarrow> int \<Rightarrow> real list" where
  "schedule hs rnds = concat (map (replicate (nat rnds)) hs)"

text \<open>
  The rounds for a list of proportions, each with the generator state its split is drawn
  from. Only the classifier and the ambient state pass from one round to the next.
\<close>

fun run_schedule ::
  "('x, 'l, 'c, 'g, 'e, 'w) lib \<Rightarrow> 'x list \<Rightarrow> 'l list \<Rightarrow> (real \<times> 'g) list \<Rightarrow> 'c \<times> 'w
     \<Rightarrow> 'e + (npfloat list \<times> 'c \<times> 'w)" where
  "run_schedule L X y [] s = Inr ([], s)"
| "run_schedule L X y ((p, g) # pgs) s =
     (case s of (clf, w) \<Rightarrow>
      (case round_body L X y p (g, clf, w) of
         Inl e \<Rightarrow> Inl e
       | Inr (v, g', clf', w') \<Rightarrow>
           (case run_schedule L X y pgs (clf', w') of
              Inl e \<Rightarrow> Inl e
            | Inr (vs, s') \<Rightarrow> Inr (v # vs, s'))))"

text \<open>The means of consecutive groups of \<open>n\<close> values, one group per proportion.\<close>

fun means :: "nat \<Rightarrow> 'a list \<Rightarrow> npfloat list \<Rightarrow> npfloat list" where
  "means n [] vs = []"
| "means n (h # hs) vs = np_mean (take n vs) # means n hs (drop n vs)"

subsection \<open>What a completed sweep has run\<close>

text \<open>
  These three predicates are not in the notebook. They say, without the loops, what a
  completed run of them amounts to, so that a statement about a completed sweep can name
  every round and the state it started in.
\<close>

text \<open>
  \<open>obs\<close> are the values of \<open>n\<close> successive rounds at proportion \<open>i\<close>: the first
  starts in state \<open>s\<close>, each next one in the state the one before left, and the last
  leaves \<open>s'\<close>.
\<close>

definition rounds_run ::
  "('x, 'l, 'c, 'g, 'e, 'w) lib \<Rightarrow> 'x list \<Rightarrow> 'l list \<Rightarrow> real \<Rightarrow> nat \<Rightarrow> 'g \<times> 'c \<times> 'w
     \<Rightarrow> npfloat list \<Rightarrow> 'g \<times> 'c \<times> 'w \<Rightarrow> bool" where
  "rounds_run L X y i n s obs s' \<longleftrightarrow>
     (\<exists>ts. length ts = Suc n \<and> length obs = n \<and> ts ! 0 = s \<and> ts ! n = s' \<and>
        (\<forall>r<n. round_body L X y i (ts ! r) = Inr (obs ! r, ts ! Suc r)))"

text \<open>
  \<open>yy\<close> has one value per proportion: the value at position \<open>j\<close> is \<^verbatim>\<open>np.mean\<close> of
  the values of \<open>nat rnds\<close> successive rounds at proportion \<open>hs ! j\<close>, which start in the
  state the proportion before left (\<open>s\<close> for the first).
\<close>

definition proportions_run ::
  "('x, 'l, 'c, 'g, 'e, 'w) lib \<Rightarrow> 'x list \<Rightarrow> 'l list \<Rightarrow> int \<Rightarrow> real list \<Rightarrow> 'g \<times> 'c \<times> 'w
     \<Rightarrow> npfloat list \<Rightarrow> 'g \<times> 'c \<times> 'w \<Rightarrow> bool" where
  "proportions_run L X y rnds hs s yy s' \<longleftrightarrow>
     (\<exists>ss. length ss = Suc (length hs) \<and> length yy = length hs \<and> ss ! 0 = s \<and>
        ss ! length hs = s' \<and>
        (\<forall>j<length hs. \<exists>obs.
           rounds_run L X y (hs ! j) (nat rnds) (ss ! j) obs (ss ! Suc j) \<and>
           yy ! j = np_mean obs))"

text \<open>
  \<open>data\<close> has one trace per classifier, in order and under its name, with the x values
  \<open>1 - h\<close>. The curve of the classifier at position \<open>k\<close> is that of a run over the
  proportions that starts with a generator built from the seed, that classifier, and the
  ambient state the classifier before left (\<open>w\<close> for the first).
\<close>

definition classifiers_run ::
  "('x, 'l, 'c, 'g, 'e, 'w) lib \<Rightarrow> 'x list \<Rightarrow> 'l list \<Rightarrow> real list \<Rightarrow> int \<Rightarrow> int
     \<Rightarrow> (string \<times> 'c) list \<Rightarrow> 'w \<Rightarrow> scatter list \<Rightarrow> 'w \<Rightarrow> bool" where
  "classifiers_run L X y hs rnds seed cs w data w' \<longleftrightarrow>
     (\<exists>ws. length ws = Suc (length cs) \<and> length data = length cs \<and> ws ! 0 = w \<and>
        ws ! length cs = w' \<and>
        (\<forall>k<length cs.
           scatter_name (data ! k) = fst (cs ! k) \<and>
           scatter_x (data ! k) = map (\<lambda>h. 1 - h) hs \<and>
           scatter_mode (data ! k) = ''lines'' \<and>
           (\<exists>g clf'.
              proportions_run L X y rnds hs (RandomState L seed, snd (cs ! k), ws ! k)
                (scatter_y (data ! k)) (g, clf', ws ! Suc k))))"

subsection \<open>The sweep with one generator for all classifiers\<close>

text \<open>
  These two definitions are not in the notebook. They follow the words of the data model
  of the specification, "seed determines a deterministic, reproducible sequence of splits
  across the whole sweep (not re-seeded per classifier)": the generator is built once, before
  the first classifier, and each classifier continues from the state the one before left.
  They are here to be compared with \<open>sweep\<close>.
\<close>

fun classifiers_loop_one_rng ::
  "('x, 'l, 'c, 'g, 'e, 'w) lib \<Rightarrow> 'x list \<Rightarrow> 'l list \<Rightarrow> real list \<Rightarrow> int
     \<Rightarrow> (string \<times> 'c) list \<Rightarrow> string list \<Rightarrow> scatter list \<Rightarrow> 'g \<Rightarrow> 'w
     \<Rightarrow> string list \<times> ('e + (scatter list \<times> 'w))" where
  "classifiers_loop_one_rng L X y hs rnds [] out data rng w = (out, Inr (data, w))"
| "classifiers_loop_one_rng L X y hs rnds ((name, clf) # rest) out data rng w =
     (let out' = out @ [''training '' @ name]
      in case heldout_loop L X y rnds hs (rng, clf, w) [] of
           Inl e \<Rightarrow> (out', Inl e)
         | Inr (yy, (rng', clf', w')) \<Rightarrow>
             classifiers_loop_one_rng L X y hs rnds rest out'
               (data @ [\<lparr>scatter_x = xx hs, scatter_y = yy,
                         scatter_mode = ''lines'', scatter_name = name\<rparr>]) rng' w')"

definition sweep_one_rng ::
  "('x, 'l, 'c, 'g, 'e, 'w) lib \<Rightarrow> 'x list \<Rightarrow> 'l list \<Rightarrow> real list \<Rightarrow> int \<Rightarrow> int
     \<Rightarrow> (string \<times> 'c) list \<Rightarrow> 'w \<Rightarrow> string list \<times> ('e + (scatter list \<times> 'w))" where
  "sweep_one_rng L X y hs rnds seed classifiers w =
     classifiers_loop_one_rng L X y hs rnds classifiers [] [] (RandomState L seed) w"

subsection \<open>Classifiers that do not depend on the ambient state\<close>

text \<open>What a library call raised or returned, without the ambient state it left.\<close>

definition outcome :: "'e + ('a \<times> 'w) \<Rightarrow> 'e + 'a" where
  "outcome r = map_sum id fst r"

text \<open>
  The classifiers in \<open>S\<close> are deterministic: what \<^verbatim>\<open>fit\<close> and \<^verbatim>\<open>predict\<close>
  raise or return does not depend on the ambient state, and \<^verbatim>\<open>fit\<close> leaves the
  classifier in \<open>S\<close>.
\<close>

definition deterministic :: "('x, 'l, 'c, 'g, 'e, 'w) lib \<Rightarrow> 'c set \<Rightarrow> bool" where
  "deterministic L S \<longleftrightarrow>
     (\<forall>clf\<in>S. \<forall>X_train y_train w1 w2.
        outcome (fit L clf X_train y_train w1) = outcome (fit L clf X_train y_train w2) \<and>
        (\<forall>clf' w'. fit L clf X_train y_train w1 = Inr (clf', w') \<longrightarrow> clf' \<in> S)) \<and>
     (\<forall>clf\<in>S. \<forall>X_test w1 w2.
        outcome (predict L clf X_test w1) = outcome (predict L clf X_test w2))"

text \<open>What a loop raised or returned, without the ambient state it left.\<close>

definition loop_outcome ::
  "'e + ('a \<times> 'g \<times> 'c \<times> 'w) \<Rightarrow> 'e + ('a \<times> 'g \<times> 'c)" where
  "loop_outcome r = map_sum id (\<lambda>(a, g, clf, w). (a, g, clf)) r"

subsection \<open>A small library instance\<close>

text \<open>
  The theorems below hold for every library. To run the sweep on concrete inputs, this
  instance stands in for numpy and scikit-learn. Its generator is a counter. Its splitter
  takes \<open>ceil(p * n)\<close> test samples, as scikit-learn does for a test size given as a
  fraction, computed on exact reals. It raises for an empty dataset, for labels that are
  not one per sample, for a test size outside \<open>(0, 1)\<close> and when no training sample
  would be left. Otherwise it rotates the dataset by the counter, takes the first
  \<open>ceil(p * n)\<close> samples as the test set and the rest as the training set, and advances
  the counter. Its classifiers are: \<open>First l\<close>, which predicts the first training label
  it saw (\<open>l\<close> before any); \<open>Fragile k\<close>, whose \<^verbatim>\<open>fit\<close> raises at the \<open>k\<close>-th call
  after construction, counted from zero; and \<open>Coin\<close>, which predicts the parity of the
  ambient state and changes it. The ambient state is a number.
\<close>

datatype demo_clf = First nat | Fragile nat | Coin

definition demo_split ::
  "nat list \<Rightarrow> nat list \<Rightarrow> real \<Rightarrow> nat
     \<Rightarrow> string + ((nat list \<times> nat list \<times> nat list \<times> nat list) \<times> nat)" where
  "demo_split X y p g =
     (let n = length X; n_test = nat \<lceil>p * real n\<rceil> in
      if n = 0 \<or> length y \<noteq> n \<or> p \<le> 0 \<or> 1 \<le> p \<or> n \<le> n_test then Inl ''ValueError''
      else Inr ((drop n_test (rotate (g mod n) X), take n_test (rotate (g mod n) X),
                 drop n_test (rotate (g mod n) y), take n_test (rotate (g mod n) y)), Suc g))"

definition demo_fit ::
  "demo_clf \<Rightarrow> nat list \<Rightarrow> nat list \<Rightarrow> nat \<Rightarrow> string + (demo_clf \<times> nat)" where
  "demo_fit c X_train y_train w =
     (case c of
        First l \<Rightarrow> Inr (First (case y_train of [] \<Rightarrow> l | l' # _ \<Rightarrow> l'), w)
      | Fragile k \<Rightarrow> (case k of 0 \<Rightarrow> Inl ''fit failed'' | Suc k' \<Rightarrow> Inr (Fragile k', w))
      | Coin \<Rightarrow> Inr (Coin, Suc w))"

definition demo_predict :: "demo_clf \<Rightarrow> nat list \<Rightarrow> nat \<Rightarrow> string + (nat list \<times> nat)" where
  "demo_predict c X_test w =
     (case c of
        First l \<Rightarrow> Inr (replicate (length X_test) l, w)
      | Fragile k \<Rightarrow> Inr (replicate (length X_test) 0, w)
      | Coin \<Rightarrow> Inr (replicate (length X_test) (w mod 2), w))"

definition demo_lib :: "(nat, nat, demo_clf, nat, string, nat) lib" where
  "demo_lib = \<lparr>RandomState = nat, train_test_split = demo_split,
               fit = demo_fit, predict = demo_predict\<rparr>"

section \<open>Lemmas about numpy values and the loops\<close>

subsection \<open>Means and error rates\<close>

lemma np_mean_as_float:
  "np_mean (map as_float bs) =
     (if bs = [] then None else Some (real (length (filter id bs)) / real (length bs)))"
proof -
  have "sum_list (map (the \<circ> as_float) bs) = real (length (filter id bs))"
    by (induction bs) (simp_all add: as_float_def)
  moreover have "None \<notin> set (map as_float bs)"
    by (auto simp: as_float_def)
  ultimately show ?thesis
    unfolding np_mean_def by (simp del: set_map)
qed

lemma error_rate_filter:
  "error_rate y_pred y_test =
     (if np_eq y_pred y_test = [] then None
      else Some (1 - real (length (filter id (np_eq y_pred y_test)))
                      / real (length (np_eq y_pred y_test))))"
  by (simp add: error_rate_def np_mean_as_float one_minus_def)

lemma error_rate_range:
  assumes "error_rate y_pred y_test = Some v"
  shows "0 \<le> v \<and> v \<le> 1"
proof -
  let ?bs = "np_eq y_pred y_test"
  from assms have ne: "?bs \<noteq> []" and v: "v = 1 - real (length (filter id ?bs)) / real (length ?bs)"
    by (auto simp: error_rate_filter split: if_splits)
  have "length (filter id ?bs) \<le> length ?bs" by simp
  then have "real (length (filter id ?bs)) / real (length ?bs) \<le> 1"
    using ne by (simp add: divide_le_eq)
  moreover have "0 \<le> real (length (filter id ?bs)) / real (length ?bs)" by simp
  ultimately show ?thesis using v by linarith
qed

lemma filter_map2_card:
  "length a = length b \<Longrightarrow>
     length (filter id (map2 (=) a b)) = card {k. k < length b \<and> a ! k = b ! k}"
proof (induction a b rule: list_induct2)
  case Nil
  then show ?case by simp
next
  case (Cons u a v b)
  have split: "{k. k < Suc (length b) \<and> (u # a) ! k = (v # b) ! k} =
        (if u = v then {0} else {}) \<union> Suc ` {k. k < length b \<and> a ! k = b ! k}"
    (is "?L = ?R")
  proof (rule set_eqI)
    fix k show "k \<in> ?L \<longleftrightarrow> k \<in> ?R"
      by (cases k) (auto split: if_splits)
  qed
  have fin: "finite {k. k < length b \<and> a ! k = b ! k}" by simp
  have "card ?R = (if u = v then 1 else 0) + card (Suc ` {k. k < length b \<and> a ! k = b ! k})"
    using fin by (auto simp: card_insert_if)
  also have "card (Suc ` {k. k < length b \<and> a ! k = b ! k}) = card {k. k < length b \<and> a ! k = b ! k}"
    by (simp add: card_image)
  finally show ?case using Cons.IH split by simp
qed

lemma error_rate_count:
  assumes "length y_pred = length y_test" and "y_test \<noteq> []"
  shows "error_rate y_pred y_test =
     Some (1 - real (card {k. k < length y_test \<and> y_pred ! k = y_test ! k})
               / real (length y_test))"
proof -
  let ?bs = "np_eq y_pred y_test"
  have eq: "?bs = map2 (=) y_pred y_test"
    using assms by (simp add: np_eq_def)
  have len: "length ?bs = length y_test"
    unfolding eq using assms by simp
  then have ne: "?bs \<noteq> []"
    using assms(2) by auto
  have cnt: "length (filter id ?bs) = card {k. k < length y_test \<and> y_pred ! k = y_test ! k}"
    unfolding eq by (rule filter_map2_card [OF assms(1)])
  show ?thesis
    unfolding error_rate_filter cnt len using ne by simp
qed

lemma np_mean_single: "np_mean [v] = v"
  by (cases v) (simp_all add: np_mean_def)

lemma sum_list_the_bounds:
  assumes "\<forall>v\<in>set obs. \<exists>r. v = Some r \<and> 0 \<le> r \<and> r \<le> (1::real)"
  shows "0 \<le> sum_list (map the obs) \<and> sum_list (map the obs) \<le> real (length obs)"
  using assms by (induction obs) (auto simp: add_nonneg_nonneg)

lemma np_mean_range:
  assumes "obs \<noteq> []" and "\<forall>v\<in>set obs. \<exists>r. v = Some r \<and> 0 \<le> r \<and> r \<le> (1::real)"
  shows "\<exists>m. np_mean obs = Some m \<and> 0 \<le> m \<and> m \<le> 1"
proof -
  have none: "None \<notin> set obs" using assms(2) by auto
  have pos: "0 < real (length obs)" using assms(1) by simp
  from sum_list_the_bounds [OF assms(2)] pos
  have "0 \<le> sum_list (map the obs) / real (length obs)"
    and "sum_list (map the obs) / real (length obs) \<le> 1"
    by (simp_all add: divide_le_eq)
  then show ?thesis
    unfolding np_mean_def using none assms(1) by simp
qed

subsection \<open>One round\<close>

lemma round_body_error_source:
  assumes "round_body L X y i (rng, clf, w) = Inl e"
  shows "train_test_split L X y i rng = Inl e \<or>
         (\<exists>X_train X_test y_train y_test rng'.
            train_test_split L X y i rng = Inr ((X_train, X_test, y_train, y_test), rng') \<and>
            (fit L clf X_train y_train w = Inl e \<or>
             (\<exists>clf' w'. fit L clf X_train y_train w = Inr (clf', w') \<and>
                        predict L clf' X_test w' = Inl e)))"
  using assms unfolding round_body_def
  by (auto split: sum.splits prod.splits)

lemma round_body_range:
  assumes "split_contract L" and "predict_contract L"
    and "round_body L X y i s = Inr (v, s')"
  shows "\<exists>r. v = Some r \<and> 0 \<le> r \<and> r \<le> 1"
proof -
  obtain rng clf w where s: "s = (rng, clf, w)" by (cases s)
  from assms(3) obtain X_train X_test y_train y_test rng' clf' w' y_pred w'' where
    sp: "train_test_split L X y i rng = Inr ((X_train, X_test, y_train, y_test), rng')" and
    pr: "predict L clf' X_test w' = Inr (y_pred, w'')" and
    v: "v = error_rate y_pred y_test"
    unfolding s round_body_def by (auto split: sum.splits prod.splits)
  from assms(1) sp have "length X_test = length y_test" "y_test \<noteq> []"
    unfolding split_contract_def by blast+
  moreover from assms(2) pr have "length y_pred = length X_test"
    unfolding predict_contract_def by blast
  ultimately have "length y_pred = length y_test" "y_test \<noteq> []" by simp_all
  then obtain r where r: "error_rate y_pred y_test = Some r"
    using error_rate_count by blast
  with error_rate_range [OF r] v show ?thesis by simp
qed

lemma round_body_next_rng:
  assumes "round_body L X y i (g, clf, w) = Inr (v, g', s')"
  shows "g' = next_rng L X y i g"
  using assms unfolding round_body_def next_rng_def
  by (auto split: sum.splits prod.splits)

subsection \<open>The three loops\<close>

lemma rounds_loop_add:
  "rounds_loop L X y i (a + b) s acc =
     (case rounds_loop L X y i a s acc of
        Inl e \<Rightarrow> Inl e
      | Inr (acc', s') \<Rightarrow> rounds_loop L X y i b s' acc')"
  by (induction a arbitrary: s acc) (simp_all split: sum.splits)

lemma heldout_loop_append:
  "heldout_loop L X y rnds (hs1 @ hs2) s acc =
     (case heldout_loop L X y rnds hs1 s acc of
        Inl e \<Rightarrow> Inl e
      | Inr (acc', s') \<Rightarrow> heldout_loop L X y rnds hs2 s' acc')"
  by (induction hs1 arbitrary: s acc) (simp_all split: sum.splits)

lemma heldout_loop_values:
  assumes "heldout_loop L X y rnds hs s acc = Inr (yy, s')"
  shows "\<exists>vs. yy = acc @ vs \<and> length vs = length hs \<and>
           (\<forall>j<length hs. \<exists>s1 obs s2.
              rounds_loop L X y (hs ! j) (nat rnds) s1 [] = Inr (obs, s2) \<and> vs ! j = np_mean obs)"
  using assms
proof (induction hs arbitrary: s acc)
  case Nil
  then show ?case by simp
next
  case (Cons i hs)
  from Cons.prems obtain obs s1 where
    inner: "rounds_loop L X y i (nat rnds) s [] = Inr (obs, s1)" and
    rest: "heldout_loop L X y rnds hs s1 (acc @ [np_mean obs]) = Inr (yy, s')"
    by (auto split: sum.splits)
  from Cons.IH [OF rest] obtain vs where
    vs: "yy = (acc @ [np_mean obs]) @ vs" "length vs = length hs"
      "\<forall>j<length hs. \<exists>s1 obs s2.
          rounds_loop L X y (hs ! j) (nat rnds) s1 [] = Inr (obs, s2) \<and> vs ! j = np_mean obs"
    by blast
  have "\<forall>j<length (i # hs). \<exists>s1 obs' s2.
          rounds_loop L X y ((i # hs) ! j) (nat rnds) s1 [] = Inr (obs', s2) \<and>
          (np_mean obs # vs) ! j = np_mean obs'"
  proof (intro allI impI)
    fix j assume "j < length (i # hs)"
    then show "\<exists>s1 obs' s2.
          rounds_loop L X y ((i # hs) ! j) (nat rnds) s1 [] = Inr (obs', s2) \<and>
          (np_mean obs # vs) ! j = np_mean obs'"
    proof (cases j)
      case 0
      then show ?thesis using inner by (metis nth_Cons_0)
    next
      case (Suc j')
      then show ?thesis using vs(3) \<open>j < length (i # hs)\<close> by simp
    qed
  qed
  then show ?case using vs(1,2) by (intro exI [of _ "np_mean obs # vs"]) simp
qed

lemma heldout_loop_no_rounds:
  "rnds \<le> 0 \<Longrightarrow>
     heldout_loop L X y rnds hs s acc = Inr (acc @ map (\<lambda>h. None) hs, s)"
  by (induction hs arbitrary: acc) (simp_all add: np_mean_def)

lemma curve_values:
  assumes "curve L X y hs rnds seed clf w = Inr (yy, s')"
  shows "length yy = length hs \<and>
           (\<forall>j<length hs. \<exists>s1 obs s2.
              rounds_loop L X y (hs ! j) (nat rnds) s1 [] = Inr (obs, s2) \<and> yy ! j = np_mean obs)"
  using heldout_loop_values [OF assms [unfolded curve_def Let_def]] by auto

lemma curve_nothing_to_run:
  assumes "hs = [] \<or> rnds \<le> 0"
  shows "curve L X y hs rnds seed clf w = Inr (map (\<lambda>h. None) hs, RandomState L seed, clf, w)"
  using assms
proof
  assume "hs = []"
  then show ?thesis by (simp add: curve_def)
next
  assume "rnds \<le> 0"
  then show ?thesis by (simp add: curve_def heldout_loop_no_rounds)
qed

lemma classifiers_loop_append:
  "classifiers_loop L X y hs rnds seed (cs1 @ cs2) out data w =
     (case classifiers_loop L X y hs rnds seed cs1 out data w of
        (out', Inl e) \<Rightarrow> (out', Inl e)
      | (out', Inr (data', w')) \<Rightarrow> classifiers_loop L X y hs rnds seed cs2 out' data' w')"
proof (induction cs1 arbitrary: out data w)
  case Nil
  then show ?case by simp
next
  case (Cons nc cs1)
  obtain name clf where nc: "nc = (name, clf)" by (cases nc)
  show ?case
    unfolding nc by (simp add: Cons.IH Let_def split: sum.splits prod.splits)
qed

lemma classifiers_loop_values:
  assumes "classifiers_loop L X y hs rnds seed cs out data w = (out', Inr (data', w'))"
  shows "\<exists>ts. data' = data @ ts \<and> length ts = length cs \<and> out' = out @ printed cs \<and>
           (\<forall>k<length cs.
              scatter_name (ts ! k) = fst (cs ! k) \<and> scatter_x (ts ! k) = xx hs \<and>
              scatter_mode (ts ! k) = ''lines'' \<and>
              (\<exists>w1 s2. curve L X y hs rnds seed (snd (cs ! k)) w1 = Inr (scatter_y (ts ! k), s2)))"
  using assms
proof (induction cs arbitrary: out data w)
  case Nil
  then show ?case by (simp add: printed_def)
next
  case (Cons nc cs)
  obtain name clf where nc: "nc = (name, clf)" by (cases nc)
  from Cons.prems obtain yy s2 where
    cur: "curve L X y hs rnds seed clf w = Inr (yy, s2)"
    by (auto simp: nc Let_def split: sum.splits)
  obtain rng2 clf2 w2 where s2: "s2 = (rng2, clf2, w2)" by (cases s2)
  let ?t = "\<lparr>scatter_x = xx hs, scatter_y = yy, scatter_mode = ''lines'', scatter_name = name\<rparr>"
  from Cons.prems cur s2 have
    rest: "classifiers_loop L X y hs rnds seed cs (out @ [''training '' @ name]) (data @ [?t]) w2
             = (out', Inr (data', w'))"
    by (simp add: nc Let_def)
  from Cons.IH [OF rest] obtain ts where
    ts: "data' = (data @ [?t]) @ ts" "length ts = length cs"
      "out' = (out @ [''training '' @ name]) @ printed cs"
      "\<forall>k<length cs.
          scatter_name (ts ! k) = fst (cs ! k) \<and> scatter_x (ts ! k) = xx hs \<and>
          scatter_mode (ts ! k) = ''lines'' \<and>
          (\<exists>w1 s2. curve L X y hs rnds seed (snd (cs ! k)) w1 = Inr (scatter_y (ts ! k), s2))"
    by blast
  have "\<forall>k<length (nc # cs).
          scatter_name ((?t # ts) ! k) = fst ((nc # cs) ! k) \<and> scatter_x ((?t # ts) ! k) = xx hs \<and>
          scatter_mode ((?t # ts) ! k) = ''lines'' \<and>
          (\<exists>w1 s2. curve L X y hs rnds seed (snd ((nc # cs) ! k)) w1
                      = Inr (scatter_y ((?t # ts) ! k), s2))"
  proof (intro allI impI)
    fix k assume k: "k < length (nc # cs)"
    show "scatter_name ((?t # ts) ! k) = fst ((nc # cs) ! k) \<and> scatter_x ((?t # ts) ! k) = xx hs \<and>
          scatter_mode ((?t # ts) ! k) = ''lines'' \<and>
          (\<exists>w1 s2. curve L X y hs rnds seed (snd ((nc # cs) ! k)) w1
                      = Inr (scatter_y ((?t # ts) ! k), s2))"
    proof (cases k)
      case 0
      have "\<exists>w1 s2. curve L X y hs rnds seed clf w1 = Inr (yy, s2)"
        using cur by blast
      then show ?thesis using 0 by (simp add: nc)
    next
      case (Suc k')
      then show ?thesis using ts(4) k by simp
    qed
  qed
  then show ?case
    using ts(1,2,3) by (intro exI [of _ "?t # ts"]) (simp add: printed_def nc)
qed

lemma classifiers_loop_nothing_to_run:
  assumes "hs = [] \<or> rnds \<le> 0"
  shows "classifiers_loop L X y hs rnds seed cs out data w =
     (out @ printed cs,
      Inr (data @ map (\<lambda>nc. \<lparr>scatter_x = xx hs, scatter_y = map (\<lambda>h. None) hs,
                               scatter_mode = ''lines'', scatter_name = fst nc\<rparr>) cs, w))"
proof (induction cs arbitrary: out data)
  case Nil
  then show ?case by (simp add: printed_def)
next
  case (Cons nc cs)
  obtain name clf where nc: "nc = (name, clf)" by (cases nc)
  show ?case
    unfolding nc by (simp add: curve_nothing_to_run [OF assms] Cons.IH printed_def)
qed

lemma sweep_values:
  assumes "sweep L X y hs rnds seed cs w = (out, Inr (data, w'))"
  shows "length data = length cs \<and> out = printed cs \<and>
           (\<forall>k<length cs.
              scatter_name (data ! k) = fst (cs ! k) \<and> scatter_x (data ! k) = xx hs \<and>
              scatter_mode (data ! k) = ''lines'' \<and>
              (\<exists>w1 s2. curve L X y hs rnds seed (snd (cs ! k)) w1 = Inr (scatter_y (data ! k), s2)))"
  using classifiers_loop_values [OF assms [unfolded sweep_def]] by auto

lemma notebook_curves:
  assumes "notebook L X y cs w = (out, Inr (data, w'))" and "k < length cs"
  shows "scatter_name (data ! k) = fst (cs ! k) \<and>
         scatter_x (data ! k) = [0.05, 0.10, 0.25, 0.50, 0.99] \<and>
         length (scatter_y (data ! k)) = 5"
proof -
  from sweep_values [OF assms(1) [unfolded notebook_def]] assms(2) obtain w1 s2 where
    nm: "scatter_name (data ! k) = fst (cs ! k)" and
    sx: "scatter_x (data ! k) = xx heldout" and
    cur: "curve L X y heldout rounds 42 (snd (cs ! k)) w1 = Inr (scatter_y (data ! k), s2)"
    by blast
  from curve_values [OF cur] have "length (scatter_y (data ! k)) = length heldout" by simp
  with nm sx show ?thesis by (simp add: heldout_def xx_def)
qed

subsection \<open>The loops run what a completed sweep has run\<close>

lemma rounds_run_0: "rounds_run L X y i 0 s [] s"
  unfolding rounds_run_def by (intro exI [of _ "[s]"]) simp

lemma rounds_run_Suc:
  assumes "round_body L X y i s = Inr (v, s1)" and "rounds_run L X y i n s1 obs s'"
  shows "rounds_run L X y i (Suc n) s (v # obs) s'"
proof -
  from assms(2) obtain ts where
    ts: "length ts = Suc n" "length obs = n" "ts ! 0 = s1" "ts ! n = s'"
      "\<forall>r<n. round_body L X y i (ts ! r) = Inr (obs ! r, ts ! Suc r)"
    unfolding rounds_run_def by blast
  have "\<forall>r<Suc n. round_body L X y i ((s # ts) ! r) = Inr ((v # obs) ! r, (s # ts) ! Suc r)"
  proof (intro allI impI)
    fix r assume "r < Suc n"
    then show "round_body L X y i ((s # ts) ! r) = Inr ((v # obs) ! r, (s # ts) ! Suc r)"
      using assms(1) ts(3,5) by (cases r) simp_all
  qed
  then show ?thesis
    unfolding rounds_run_def using ts(1,2,4)
    by (intro exI [of _ "s # ts"]) simp
qed

lemma rounds_loop_run:
  assumes "rounds_loop L X y i n s acc = Inr (yy', s')"
  shows "\<exists>obs. yy' = acc @ obs \<and> rounds_run L X y i n s obs s'"
  using assms
proof (induction n arbitrary: s acc)
  case 0
  then show ?case by (simp add: rounds_run_0)
next
  case (Suc n)
  from Suc.prems obtain v s1 where
    body: "round_body L X y i s = Inr (v, s1)" and
    rest: "rounds_loop L X y i n s1 (acc @ [v]) = Inr (yy', s')"
    by (auto split: sum.splits)
  from Suc.IH [OF rest] obtain obs where
    "yy' = (acc @ [v]) @ obs" "rounds_run L X y i n s1 obs s'"
    by blast
  with rounds_run_Suc [OF body] show ?case by auto
qed

lemma rounds_run_single:
  assumes "rounds_run L X y i (Suc 0) s obs s'"
  shows "\<exists>v. obs = [v] \<and> round_body L X y i s = Inr (v, s')"
proof -
  from assms obtain ts where
    ts: "length obs = Suc 0" "ts ! 0 = s" "ts ! Suc 0 = s'"
      "\<forall>r<Suc 0. round_body L X y i (ts ! r) = Inr (obs ! r, ts ! Suc r)"
    unfolding rounds_run_def by blast
  from ts(1) obtain v where v: "obs = [v]" by (cases obs) auto
  from ts(4) have "round_body L X y i (ts ! 0) = Inr (obs ! 0, ts ! Suc 0)" by simp
  with ts(2,3) v show ?thesis by simp
qed

lemma rounds_run_range:
  assumes "split_contract L" and "predict_contract L"
    and "rounds_run L X y i n s obs s'"
  shows "\<forall>v\<in>set obs. \<exists>r. v = Some r \<and> 0 \<le> r \<and> r \<le> 1"
proof -
  from assms(3) obtain ts where
    len: "length obs = n" and
    each: "\<forall>r<n. round_body L X y i (ts ! r) = Inr (obs ! r, ts ! Suc r)"
    unfolding rounds_run_def by blast
  show ?thesis
  proof
    fix v assume "v \<in> set obs"
    then obtain r where "r < n" "v = obs ! r"
      using len by (auto simp: in_set_conv_nth)
    with each have "round_body L X y i (ts ! r) = Inr (v, ts ! Suc r)" by simp
    from round_body_range [OF assms(1,2) this] show "\<exists>r. v = Some r \<and> 0 \<le> r \<and> r \<le> 1" .
  qed
qed

lemma proportions_run_Nil: "proportions_run L X y rnds [] s [] s"
  unfolding proportions_run_def by (intro exI [of _ "[s]"]) simp

lemma proportions_run_Cons:
  assumes "rounds_run L X y i (nat rnds) s obs s1"
    and "proportions_run L X y rnds hs s1 yy s'"
  shows "proportions_run L X y rnds (i # hs) s (np_mean obs # yy) s'"
proof -
  from assms(2) obtain ss where
    ss: "length ss = Suc (length hs)" "length yy = length hs" "ss ! 0 = s1"
      "ss ! length hs = s'"
      "\<forall>j<length hs. \<exists>obs.
          rounds_run L X y (hs ! j) (nat rnds) (ss ! j) obs (ss ! Suc j) \<and> yy ! j = np_mean obs"
    unfolding proportions_run_def by blast
  have "\<forall>j<length (i # hs). \<exists>obs'.
          rounds_run L X y ((i # hs) ! j) (nat rnds) ((s # ss) ! j) obs' ((s # ss) ! Suc j) \<and>
          (np_mean obs # yy) ! j = np_mean obs'"
  proof (intro allI impI)
    fix j assume j: "j < length (i # hs)"
    show "\<exists>obs'.
          rounds_run L X y ((i # hs) ! j) (nat rnds) ((s # ss) ! j) obs' ((s # ss) ! Suc j) \<and>
          (np_mean obs # yy) ! j = np_mean obs'"
    proof (cases j)
      case 0
      then show ?thesis using assms(1) ss(3) by auto
    next
      case (Suc j')
      then show ?thesis using ss(5) j by simp
    qed
  qed
  then show ?thesis
    unfolding proportions_run_def using ss(1,2,4)
    by (intro exI [of _ "s # ss"]) simp
qed

lemma proportions_run_Nil_iff:
  "proportions_run L X y rnds [] s yy s' \<longleftrightarrow> yy = [] \<and> s' = s"
  unfolding proportions_run_def by (auto intro: exI [of _ "[s]"])

lemma proportions_run_take:
  assumes "proportions_run L X y rnds hs s yy s'" and "j < length hs"
  shows "\<exists>sj obs sj'.
           proportions_run L X y rnds (take j hs) s (take j yy) sj \<and>
           rounds_run L X y (hs ! j) (nat rnds) sj obs sj' \<and> yy ! j = np_mean obs"
proof -
  from assms(1) obtain ss where
    ss: "length ss = Suc (length hs)" "length yy = length hs" "ss ! 0 = s"
      "\<forall>j<length hs. \<exists>obs.
          rounds_run L X y (hs ! j) (nat rnds) (ss ! j) obs (ss ! Suc j) \<and> yy ! j = np_mean obs"
    unfolding proportions_run_def by blast
  let ?ss = "take (Suc j) ss"
  have "length ?ss = Suc (length (take j hs))" "length (take j yy) = length (take j hs)"
    "?ss ! 0 = s" "?ss ! length (take j hs) = ss ! j"
    using ss(1,2,3) assms(2) by simp_all
  moreover have "\<forall>j'<length (take j hs). \<exists>obs.
          rounds_run L X y (take j hs ! j') (nat rnds) (?ss ! j') obs (?ss ! Suc j') \<and>
          take j yy ! j' = np_mean obs"
    using ss(4) assms(2) by simp
  ultimately have "proportions_run L X y rnds (take j hs) s (take j yy) (ss ! j)"
    unfolding proportions_run_def by (intro exI [of _ ?ss]) blast
  with ss(4) assms(2) show ?thesis by blast
qed

lemma heldout_loop_run:
  assumes "heldout_loop L X y rnds hs s acc = Inr (yy, s')"
  shows "\<exists>vs. yy = acc @ vs \<and> proportions_run L X y rnds hs s vs s'"
  using assms
proof (induction hs arbitrary: s acc)
  case Nil
  then show ?case by (simp add: proportions_run_Nil)
next
  case (Cons i hs)
  from Cons.prems obtain obs s1 where
    inner: "rounds_loop L X y i (nat rnds) s [] = Inr (obs, s1)" and
    rest: "heldout_loop L X y rnds hs s1 (acc @ [np_mean obs]) = Inr (yy, s')"
    by (auto split: sum.splits)
  from rounds_loop_run [OF inner] have rr: "rounds_run L X y i (nat rnds) s obs s1"
    by simp
  from Cons.IH [OF rest] obtain vs where
    "yy = (acc @ [np_mean obs]) @ vs" "proportions_run L X y rnds hs s1 vs s'"
    by blast
  with proportions_run_Cons [OF rr] show ?case by auto
qed

lemma curve_run:
  assumes "curve L X y hs rnds seed clf w = Inr (yy, s')"
  shows "proportions_run L X y rnds hs (RandomState L seed, clf, w) yy s'"
  using heldout_loop_run [OF assms [unfolded curve_def Let_def]] by simp

lemma classifiers_run_Nil: "classifiers_run L X y hs rnds seed [] w [] w"
  unfolding classifiers_run_def by (intro exI [of _ "[w]"]) simp

lemma classifiers_run_Cons:
  assumes "proportions_run L X y rnds hs (RandomState L seed, clf, w) yy (g, clf', w1)"
    and "classifiers_run L X y hs rnds seed cs w1 data w'"
  shows "classifiers_run L X y hs rnds seed ((name, clf) # cs) w
           (\<lparr>scatter_x = xx hs, scatter_y = yy, scatter_mode = ''lines'',
              scatter_name = name\<rparr> # data) w'"
proof -
  let ?t = "\<lparr>scatter_x = xx hs, scatter_y = yy, scatter_mode = ''lines'', scatter_name = name\<rparr>"
  let ?cs = "(name, clf) # cs"
  from assms(2) obtain ws where
    ws: "length ws = Suc (length cs)" "length data = length cs" "ws ! 0 = w1"
      "ws ! length cs = w'"
      "\<forall>k<length cs.
          scatter_name (data ! k) = fst (cs ! k) \<and>
          scatter_x (data ! k) = map (\<lambda>h. 1 - h) hs \<and>
          scatter_mode (data ! k) = ''lines'' \<and>
          (\<exists>g clf'.
             proportions_run L X y rnds hs (RandomState L seed, snd (cs ! k), ws ! k)
               (scatter_y (data ! k)) (g, clf', ws ! Suc k))"
    unfolding classifiers_run_def by blast
  have "\<forall>k<length ?cs.
          scatter_name ((?t # data) ! k) = fst (?cs ! k) \<and>
          scatter_x ((?t # data) ! k) = map (\<lambda>h. 1 - h) hs \<and>
          scatter_mode ((?t # data) ! k) = ''lines'' \<and>
          (\<exists>g clf'.
             proportions_run L X y rnds hs (RandomState L seed, snd (?cs ! k), (w # ws) ! k)
               (scatter_y ((?t # data) ! k)) (g, clf', (w # ws) ! Suc k))"
  proof (intro allI impI)
    fix k assume k: "k < length ?cs"
    show "scatter_name ((?t # data) ! k) = fst (?cs ! k) \<and>
          scatter_x ((?t # data) ! k) = map (\<lambda>h. 1 - h) hs \<and>
          scatter_mode ((?t # data) ! k) = ''lines'' \<and>
          (\<exists>g clf'.
             proportions_run L X y rnds hs (RandomState L seed, snd (?cs ! k), (w # ws) ! k)
               (scatter_y ((?t # data) ! k)) (g, clf', (w # ws) ! Suc k))"
    proof (cases k)
      case 0
      then show ?thesis using assms(1) ws(3) by (auto simp: xx_def)
    next
      case (Suc k')
      then show ?thesis using ws(5) k by simp
    qed
  qed
  then show ?thesis
    unfolding classifiers_run_def using ws(1,2,4)
    by (intro exI [of _ "w # ws"]) simp
qed

lemma classifiers_run_Nil_iff:
  "classifiers_run L X y hs rnds seed [] w data w' \<longleftrightarrow> data = [] \<and> w' = w"
  unfolding classifiers_run_def by (auto intro: exI [of _ "[w]"])

lemma classifiers_run_take:
  assumes "classifiers_run L X y hs rnds seed cs w data w'" and "k < length cs"
  shows "\<exists>wk g clf' wk'.
           classifiers_run L X y hs rnds seed (take k cs) w (take k data) wk \<and>
           proportions_run L X y rnds hs (RandomState L seed, snd (cs ! k), wk)
             (scatter_y (data ! k)) (g, clf', wk')"
proof -
  from assms(1) obtain ws where
    ws: "length ws = Suc (length cs)" "length data = length cs" "ws ! 0 = w"
      "\<forall>k<length cs.
          scatter_name (data ! k) = fst (cs ! k) \<and>
          scatter_x (data ! k) = map (\<lambda>h. 1 - h) hs \<and>
          scatter_mode (data ! k) = ''lines'' \<and>
          (\<exists>g clf'.
             proportions_run L X y rnds hs (RandomState L seed, snd (cs ! k), ws ! k)
               (scatter_y (data ! k)) (g, clf', ws ! Suc k))"
    unfolding classifiers_run_def by blast
  let ?ws = "take (Suc k) ws"
  have "length ?ws = Suc (length (take k cs))" "length (take k data) = length (take k cs)"
    "?ws ! 0 = w" "?ws ! length (take k cs) = ws ! k"
    using ws(1,2,3) assms(2) by simp_all
  moreover have "\<forall>k'<length (take k cs).
          scatter_name (take k data ! k') = fst (take k cs ! k') \<and>
          scatter_x (take k data ! k') = map (\<lambda>h. 1 - h) hs \<and>
          scatter_mode (take k data ! k') = ''lines'' \<and>
          (\<exists>g clf'.
             proportions_run L X y rnds hs (RandomState L seed, snd (take k cs ! k'), ?ws ! k')
               (scatter_y (take k data ! k')) (g, clf', ?ws ! Suc k'))"
    using ws(4) assms(2) by simp
  ultimately have "classifiers_run L X y hs rnds seed (take k cs) w (take k data) (ws ! k)"
    unfolding classifiers_run_def by (intro exI [of _ ?ws]) blast
  with ws(4) assms(2) show ?thesis by blast
qed

lemma classifiers_loop_run:
  assumes "classifiers_loop L X y hs rnds seed cs out data w = (out', Inr (data', w'))"
  shows "\<exists>ts. data' = data @ ts \<and> classifiers_run L X y hs rnds seed cs w ts w'"
  using assms
proof (induction cs arbitrary: out data w)
  case Nil
  then show ?case by (simp add: classifiers_run_Nil)
next
  case (Cons nc cs)
  obtain name clf where nc: "nc = (name, clf)" by (cases nc)
  from Cons.prems obtain yy s2 where
    cur: "curve L X y hs rnds seed clf w = Inr (yy, s2)"
    by (auto simp: nc Let_def split: sum.splits)
  obtain g clf' w1 where s2: "s2 = (g, clf', w1)" by (cases s2)
  let ?t = "\<lparr>scatter_x = xx hs, scatter_y = yy, scatter_mode = ''lines'', scatter_name = name\<rparr>"
  from Cons.prems cur s2 have
    rest: "classifiers_loop L X y hs rnds seed cs (out @ [''training '' @ name]) (data @ [?t]) w1
             = (out', Inr (data', w'))"
    by (simp add: nc Let_def)
  from Cons.IH [OF rest] obtain ts where
    ts: "data' = (data @ [?t]) @ ts" "classifiers_run L X y hs rnds seed cs w1 ts w'"
    by blast
  from classifiers_run_Cons [OF curve_run [OF cur [unfolded s2]] ts(2)] ts(1)
  show ?case unfolding nc by auto
qed

lemma sweep_run:
  assumes "sweep L X y hs rnds seed cs w = (out, Inr (data, w'))"
  shows "classifiers_run L X y hs rnds seed cs w data w'"
  using classifiers_loop_run [OF assms [unfolded sweep_def]] by simp

subsection \<open>The loops and the schedule\<close>

lemma length_draws [simp]: "length (draws L X y ps g) = length ps"
  by (induction ps arbitrary: g) simp_all

lemma rng_after_Cons: "rng_after L X y (p # ps) g = rng_after L X y ps (next_rng L X y p g)"
  by (simp add: rng_after_def)

lemma rng_after_append:
  "rng_after L X y (ps1 @ ps2) g = rng_after L X y ps2 (rng_after L X y ps1 g)"
  by (simp add: rng_after_def)

lemma draws_append:
  "draws L X y (ps1 @ ps2) g = draws L X y ps1 g @ draws L X y ps2 (rng_after L X y ps1 g)"
  by (induction ps1 arbitrary: g) (simp_all add: rng_after_def)

lemma draws_nth:
  "n < length ps \<Longrightarrow> draws L X y ps g ! n = rng_after L X y (take n ps) g"
proof (induction ps arbitrary: g n)
  case Nil
  then show ?case by simp
next
  case (Cons p ps)
  then show ?case by (cases n) (simp_all add: rng_after_def)
qed

lemma length_schedule: "length (schedule hs rnds) = length hs * nat rnds"
  by (induction hs) (simp_all add: schedule_def)

lemma schedule_nth:
  "n < length hs * nat rnds \<Longrightarrow> schedule hs rnds ! n = hs ! (n div nat rnds)"
proof (induction hs arbitrary: n)
  case Nil
  then show ?case by simp
next
  case (Cons h hs)
  let ?r = "nat rnds"
  have sched: "schedule (h # hs) rnds = replicate ?r h @ schedule hs rnds"
    by (simp add: schedule_def)
  show ?case
  proof (cases "n < ?r")
    case True
    then show ?thesis by (simp add: sched nth_append)
  next
    case False
    then have ge: "?r \<le> n" by simp
    from Cons.prems have "n - ?r < length hs * ?r" using ge by simp
    from Cons.IH [OF this] have "schedule hs rnds ! (n - ?r) = hs ! ((n - ?r) div ?r)" .
    moreover have "0 < ?r" using Cons.prems by (cases "?r = 0") simp_all
    then have "n div ?r = Suc ((n - ?r) div ?r)"
      using ge by (rule le_div_geq)
    ultimately show ?thesis using False by (simp add: sched nth_append)
  qed
qed

lemma run_schedule_length:
  "run_schedule L X y pgs s = Inr (vs, s') \<Longrightarrow> length vs = length pgs"
proof (induction pgs arbitrary: s vs)
  case Nil
  then show ?case by simp
next
  case (Cons pg pgs)
  obtain p g where pg: "pg = (p, g)" by (cases pg)
  obtain clf w where s: "s = (clf, w)" by (cases s)
  from Cons.prems obtain v g' clf' w' vs' where
    "run_schedule L X y pgs (clf', w') = Inr (vs', s')" and "vs = v # vs'"
    unfolding pg s by (auto split: sum.splits prod.splits)
  with Cons.IH show ?case by auto
qed

lemma run_schedule_append:
  "run_schedule L X y (pgs1 @ pgs2) s =
     (case run_schedule L X y pgs1 s of
        Inl e \<Rightarrow> Inl e
      | Inr (vs1, s1) \<Rightarrow>
          (case run_schedule L X y pgs2 s1 of
             Inl e \<Rightarrow> Inl e
           | Inr (vs2, s2) \<Rightarrow> Inr (vs1 @ vs2, s2)))"
proof (induction pgs1 arbitrary: s)
  case Nil
  then show ?case by (simp split: sum.splits)
next
  case (Cons pg pgs1)
  obtain p g where pg: "pg = (p, g)" by (cases pg)
  show ?case
    unfolding pg by (simp add: Cons.IH split: sum.splits prod.splits)
qed

lemma rounds_loop_schedule:
  "rounds_loop L X y i n (g, clf, w) acc =
     (case run_schedule L X y (zip (replicate n i) (draws L X y (replicate n i) g)) (clf, w) of
        Inl e \<Rightarrow> Inl e
      | Inr (vs, clf', w') \<Rightarrow> Inr (acc @ vs, rng_after L X y (replicate n i) g, clf', w'))"
proof (induction n arbitrary: g clf w acc)
  case 0
  then show ?case by (simp add: rng_after_def)
next
  case (Suc n)
  show ?case
  proof (cases "round_body L X y i (g, clf, w)")
    case (Inl e)
    then show ?thesis by simp
  next
    case (Inr r)
    obtain v g' clf' w' where r: "r = (v, g', clf', w')" by (cases r)
    have g': "g' = next_rng L X y i g"
      using Inr r round_body_next_rng by fastforce
    show ?thesis
      using Inr r g' Suc.IH [of g' clf' w' "acc @ [v]"]
      by (simp add: rng_after_Cons split: sum.splits prod.splits)
  qed
qed

lemma heldout_loop_schedule:
  "heldout_loop L X y rnds hs (g, clf, w) acc =
     (case run_schedule L X y
             (zip (schedule hs rnds) (draws L X y (schedule hs rnds) g)) (clf, w) of
        Inl e \<Rightarrow> Inl e
      | Inr (vs, clf', w') \<Rightarrow>
          Inr (acc @ means (nat rnds) hs vs, rng_after L X y (schedule hs rnds) g, clf', w'))"
proof (induction hs arbitrary: g clf w acc)
  case Nil
  then show ?case by (simp add: schedule_def rng_after_def)
next
  case (Cons i hs)
  let ?n = "nat rnds"
  let ?ps1 = "replicate ?n i"
  let ?ps2 = "schedule hs rnds"
  let ?g1 = "rng_after L X y ?ps1 g"
  have sched: "schedule (i # hs) rnds = ?ps1 @ ?ps2"
    by (simp add: schedule_def)
  have zip: "zip (?ps1 @ ?ps2) (draws L X y (?ps1 @ ?ps2) g) =
        zip ?ps1 (draws L X y ?ps1 g) @ zip ?ps2 (draws L X y ?ps2 ?g1)"
    by (simp add: draws_append)
  show ?case
  proof (cases "run_schedule L X y (zip ?ps1 (draws L X y ?ps1 g)) (clf, w)")
    case (Inl e)
    then show ?thesis
      by (simp add: sched zip run_schedule_append rounds_loop_schedule [where acc = "[]"])
  next
    case (Inr r)
    obtain vs1 clf1 w1 where r: "r = (vs1, clf1, w1)" by (cases r)
    have len1: "length vs1 = ?n"
      using run_schedule_length [OF Inr [unfolded r]] by simp
    have inner: "rounds_loop L X y i ?n (g, clf, w) [] = Inr (vs1, ?g1, clf1, w1)"
      using Inr r by (simp add: rounds_loop_schedule [where acc = "[]"])
    show ?thesis
    proof (cases "run_schedule L X y (zip ?ps2 (draws L X y ?ps2 ?g1)) (clf1, w1)")
      case (Inl e)
      then show ?thesis
        using Inr r inner Cons.IH [of ?g1 clf1 w1 "acc @ [np_mean vs1]"]
        by (simp add: sched zip run_schedule_append)
    next
      case Inr2: (Inr r2)
      obtain vs2 clf2 w2 where r2: "r2 = (vs2, clf2, w2)" by (cases r2)
      show ?thesis
        using Inr r inner Inr2 r2 len1 Cons.IH [of ?g1 clf1 w1 "acc @ [np_mean vs1]"]
        by (simp add: sched zip run_schedule_append rng_after_append)
    qed
  qed
qed

lemma curve_schedule:
  "curve L X y hs rnds seed clf w =
     (case run_schedule L X y
             (zip (schedule hs rnds) (draws L X y (schedule hs rnds) (RandomState L seed)))
             (clf, w) of
        Inl e \<Rightarrow> Inl e
      | Inr (vs, clf', w') \<Rightarrow>
          Inr (means (nat rnds) hs vs,
               rng_after L X y (schedule hs rnds) (RandomState L seed), clf', w'))"
  unfolding curve_def Let_def
  by (simp add: heldout_loop_schedule [where acc = "[]"] split: sum.splits prod.splits)

subsection \<open>Deterministic classifiers\<close>

lemma outcome_eq_cases:
  assumes "outcome r1 = outcome r2"
  obtains (fail) e where "r1 = Inl e" "r2 = Inl e"
  | (ok) a w1 w2 where "r1 = Inr (a, w1)" "r2 = Inr (a, w2)"
  using assms unfolding outcome_def
  by (cases r1; cases r2) auto

lemma loop_outcome_eq_cases:
  assumes "loop_outcome r1 = loop_outcome r2"
  obtains (fail) e where "r1 = Inl e" "r2 = Inl e"
  | (ok) a g clf w1 w2 where "r1 = Inr (a, g, clf, w1)" "r2 = Inr (a, g, clf, w2)"
  using assms unfolding loop_outcome_def
  by (cases r1; cases r2) auto

lemma round_body_deterministic:
  assumes det: "deterministic L S" and clf: "clf \<in> S"
  shows "loop_outcome (round_body L X y i (g, clf, w1)) =
         loop_outcome (round_body L X y i (g, clf, w2)) \<and>
         (\<forall>v g' clf' w'. round_body L X y i (g, clf, w1) = Inr (v, g', clf', w') \<longrightarrow> clf' \<in> S)"
proof (cases "train_test_split L X y i g")
  case (Inl e)
  then show ?thesis by (simp add: round_body_def loop_outcome_def)
next
  case (Inr r)
  obtain X_train X_test y_train y_test g' where
    r: "r = ((X_train, X_test, y_train, y_test), g')"
    by (cases r) auto
  from det clf have
    fit_eq: "outcome (fit L clf X_train y_train w1) = outcome (fit L clf X_train y_train w2)" and
    fit_S: "\<And>clf' w'. fit L clf X_train y_train w1 = Inr (clf', w') \<Longrightarrow> clf' \<in> S"
    unfolding deterministic_def by blast+
  from fit_eq show ?thesis
  proof (cases rule: outcome_eq_cases)
    case (fail e)
    then show ?thesis using Inr r by (simp add: round_body_def loop_outcome_def)
  next
    case (ok clf' u1 u2)
    have S': "clf' \<in> S" using fit_S ok(1) by blast
    with det have
      "outcome (predict L clf' X_test u1) = outcome (predict L clf' X_test u2)"
      unfolding deterministic_def by blast
    then show ?thesis
    proof (cases rule: outcome_eq_cases)
      case (fail e)
      then show ?thesis using Inr r ok by (simp add: round_body_def loop_outcome_def)
    next
      case ok2: (ok y_pred v1 v2)
      then show ?thesis using Inr r ok S' by (simp add: round_body_def loop_outcome_def)
    qed
  qed
qed

lemma rounds_loop_deterministic:
  assumes det: "deterministic L S"
  shows "clf \<in> S \<Longrightarrow>
         loop_outcome (rounds_loop L X y i n (g, clf, w1) acc) =
         loop_outcome (rounds_loop L X y i n (g, clf, w2) acc) \<and>
         (\<forall>yy' g' clf' w'. rounds_loop L X y i n (g, clf, w1) acc = Inr (yy', g', clf', w')
            \<longrightarrow> clf' \<in> S)"
proof (induction n arbitrary: g clf w1 w2 acc)
  case 0
  then show ?case by (simp add: loop_outcome_def)
next
  case (Suc n)
  note rb = round_body_deterministic [OF det Suc.prems, where X = X and y = y and i = i and g = g and ?w1.0 = w1 and ?w2.0 = w2]
  from rb [THEN conjunct1] show ?case
  proof (cases rule: loop_outcome_eq_cases)
    case (fail e)
    then show ?thesis by (simp add: loop_outcome_def)
  next
    case (ok v g' clf' u1 u2)
    have "clf' \<in> S" using rb ok(1) by blast
    from Suc.IH [OF this, where g = g' and ?w1.0 = u1 and ?w2.0 = u2 and acc = "acc @ [v]"] show ?thesis
      using ok by simp
  qed
qed

lemma heldout_loop_deterministic:
  assumes det: "deterministic L S"
  shows "clf \<in> S \<Longrightarrow>
         loop_outcome (heldout_loop L X y rnds hs (g, clf, w1) acc) =
         loop_outcome (heldout_loop L X y rnds hs (g, clf, w2) acc) \<and>
         (\<forall>yy g' clf' w'. heldout_loop L X y rnds hs (g, clf, w1) acc = Inr (yy, g', clf', w')
            \<longrightarrow> clf' \<in> S)"
proof (induction hs arbitrary: g clf w1 w2 acc)
  case Nil
  then show ?case by (simp add: loop_outcome_def)
next
  case (Cons i hs)
  note rl = rounds_loop_deterministic [OF det Cons.prems, where X = X and y = y and i = i
      and n = "nat rnds" and g = g and ?w1.0 = w1 and ?w2.0 = w2 and acc = "[]"]
  from rl [THEN conjunct1] show ?case
  proof (cases rule: loop_outcome_eq_cases)
    case (fail e)
    then show ?thesis by (simp add: loop_outcome_def)
  next
    case (ok obs g' clf' u1 u2)
    have "clf' \<in> S" using rl ok(1) by blast
    from Cons.IH [OF this, where g = g' and ?w1.0 = u1 and ?w2.0 = u2 and acc = "acc @ [np_mean obs]"]
    show ?thesis
      using ok by simp
  qed
qed

lemma curve_deterministic:
  assumes "deterministic L S" and "clf \<in> S"
  shows "loop_outcome (curve L X y hs rnds seed clf w1) =
         loop_outcome (curve L X y hs rnds seed clf w2)"
  unfolding curve_def Let_def
  using heldout_loop_deterministic [OF assms] by blast

lemma classifiers_loop_deterministic:
  assumes det: "deterministic L S"
  shows "snd ` set cs \<subseteq> S \<Longrightarrow>
         fst (classifiers_loop L X y hs rnds seed cs out data w1) =
         fst (classifiers_loop L X y hs rnds seed cs out data w2) \<and>
         outcome (snd (classifiers_loop L X y hs rnds seed cs out data w1)) =
         outcome (snd (classifiers_loop L X y hs rnds seed cs out data w2))"
proof (induction cs arbitrary: out data w1 w2)
  case Nil
  then show ?case by (simp add: outcome_def)
next
  case (Cons nc cs)
  obtain name clf where nc: "nc = (name, clf)" by (cases nc)
  from Cons.prems have clf: "clf \<in> S" and rest: "snd ` set cs \<subseteq> S"
    by (auto simp: nc)
  from curve_deterministic [OF det clf, where X = X and y = y and hs = hs and rnds = rnds
      and seed = seed and ?w1.0 = w1 and ?w2.0 = w2]
  show ?case
  proof (cases rule: loop_outcome_eq_cases)
    case (fail e)
    then show ?thesis by (simp add: nc Let_def outcome_def)
  next
    case (ok yy g' clf' u1 u2)
    then show ?thesis
      using Cons.IH [OF rest] by (simp add: nc Let_def)
  qed
qed

subsection \<open>The library instance\<close>

lemma demo_split_contract: "split_contract demo_lib"
proof -
  have "length X_test = length y_test \<and> y_test \<noteq> []"
    if "demo_split X y p g = Inr ((X_train, X_test, y_train, y_test), g')"
    for X y p g X_train X_test y_train y_test g'
  proof -
    let ?n = "length X"
    let ?k = "nat \<lceil>p * real ?n\<rceil>"
    from that have n: "?n \<noteq> 0" "length y = ?n" and p: "0 < p"
      and xt: "X_test = take ?k (rotate (g mod ?n) X)"
      and yt: "y_test = take ?k (rotate (g mod ?n) y)"
      by (auto simp: demo_split_def Let_def split: if_splits)
    have "0 < p * real ?n" using n(1) p by simp
    then have "0 < \<lceil>p * real ?n\<rceil>" by linarith
    then have k: "0 < ?k" by simp
    have "0 < length y" using n by simp
    then have "0 < min (length y) ?k" using k by linarith
    moreover have "length y_test = min (length y) ?k" unfolding yt by simp
    ultimately have "0 < length y_test" by (simp only:)
    then have "y_test \<noteq> []" by auto
    moreover have "length X_test = length y_test" unfolding xt yt using n by simp
    ultimately show ?thesis by simp
  qed
  then show ?thesis
    unfolding split_contract_def demo_lib_def by simp
qed

lemma demo_predict_contract: "predict_contract demo_lib"
  unfolding predict_contract_def demo_lib_def
  by (auto simp: demo_predict_def split: demo_clf.splits)

lemma demo_deterministic: "deterministic demo_lib (range First)"
  unfolding deterministic_def demo_lib_def
  by (auto simp: demo_fit_def demo_predict_def outcome_def)


section \<open>The claims\<close>

text \<open>
  C1, as the specification states it, includes that every curve value of a completed sweep
  lies in \<open>[0, 1]\<close>. The notebook accepts a number of rounds that is not positive, and the
  sweep then completes with \<open>nan\<close> for a value.
\<close>

theorem nan_curve_value_counterexample:
  "sweep demo_lib [0, 1, 2, 3] [0, 1, 0, 1] [1 / 2] 0 42 [(''a'', First 0)] 0 =
     ([''training a''],
      Inr ([\<lparr>scatter_x = [1 / 2], scatter_y = [None], scatter_mode = ''lines'',
              scatter_name = ''a''\<rparr>], 0)) \<and>
   \<not> (\<exists>v. [None :: npfloat] ! 0 = Some v \<and> 0 \<le> v \<and> v \<le> 1)"
proof -
  have "sweep demo_lib [0, 1, 2, 3] [0, 1, 0, 1] [1 / 2] 0 42 [(''a'', First 0)] 0 =
     ([''training a''],
      Inr ([\<lparr>scatter_x = [1 / 2], scatter_y = [None], scatter_mode = ''lines'',
              scatter_name = ''a''\<rparr>], 0))"
    by code_simp
  moreover have "\<not> (\<exists>v. [None :: npfloat] ! 0 = Some v \<and> 0 \<le> v \<and> v \<le> 1)"
    by simp
  ultimately show ?thesis by blast
qed

text \<open>
  C1, amended. When the sweep completes, there is one trace per classifier, in order and
  under its name, and its curve has exactly one value per proportion: the value at position
  \<open>j\<close> is the mean of the rounds run at the \<open>j\<close>-th proportion for that classifier,
  from the state the sweep had reached. With a positive number of rounds, a splitter that
  returns a non-empty test set with one label per test sample, and a \<^verbatim>\<open>predict\<close> that
  returns one label per sample, every value is a number in \<open>[0, 1]\<close>. With a number of
  rounds that is not positive, every value is \<open>nan\<close>.
\<close>

theorem sweep_curve_shape:
  assumes "sweep L X y hs rnds seed cs w = (out, Inr (data, w'))"
  shows "classifiers_run L X y hs rnds seed cs w data w' \<and>
         length data = length cs \<and>
         (\<forall>k<length cs.
            length (scatter_y (data ! k)) = length hs \<and>
            (0 < rnds \<and> split_contract L \<and> predict_contract L \<longrightarrow>
               (\<forall>j<length hs. \<exists>v. scatter_y (data ! k) ! j = Some v \<and> 0 \<le> v \<and> v \<le> 1)) \<and>
            (rnds \<le> 0 \<longrightarrow> (\<forall>j<length hs. scatter_y (data ! k) ! j = None)))"
proof -
  note run = sweep_run [OF assms]
  then have len: "length data = length cs"
    unfolding classifiers_run_def by blast
  have "length (scatter_y (data ! k)) = length hs \<and>
        (0 < rnds \<and> split_contract L \<and> predict_contract L \<longrightarrow>
           (\<forall>j<length hs. \<exists>v. scatter_y (data ! k) ! j = Some v \<and> 0 \<le> v \<and> v \<le> 1)) \<and>
        (rnds \<le> 0 \<longrightarrow> (\<forall>j<length hs. scatter_y (data ! k) ! j = None))"
    if k: "k < length cs" for k
  proof -
    from classifiers_run_take [OF run k] obtain wk g clf' wk' where
      pr: "proportions_run L X y rnds hs (RandomState L seed, snd (cs ! k), wk)
             (scatter_y (data ! k)) (g, clf', wk')"
      by blast
    then have lenk: "length (scatter_y (data ! k)) = length hs"
      unfolding proportions_run_def by blast
    have range: "\<exists>v. scatter_y (data ! k) ! j = Some v \<and> 0 \<le> v \<and> v \<le> 1"
      if pos: "0 < rnds" and sc: "split_contract L" and pc: "predict_contract L"
        and j: "j < length hs" for j
    proof -
      from proportions_run_take [OF pr j] obtain sj obs sj' where
        rr: "rounds_run L X y (hs ! j) (nat rnds) sj obs sj'" and
        mean: "scatter_y (data ! k) ! j = np_mean obs"
        by blast
      from rr have "length obs = nat rnds" unfolding rounds_run_def by blast
      then have "obs \<noteq> []" using pos by auto
      from np_mean_range [OF this rounds_run_range [OF sc pc rr]] mean
      show ?thesis by simp
    qed
    have nan: "scatter_y (data ! k) ! j = None" if "rnds \<le> 0" and j: "j < length hs" for j
    proof -
      from proportions_run_take [OF pr j] obtain sj obs sj' where
        rr: "rounds_run L X y (hs ! j) (nat rnds) sj obs sj'" and
        mean: "scatter_y (data ! k) ! j = np_mean obs"
        by blast
      from rr that(1) have "obs = []" unfolding rounds_run_def by auto
      with mean show ?thesis by (simp add: np_mean_def)
    qed
    from lenk range nan show ?thesis by blast
  qed
  with run len show ?thesis by blast
qed

theorem sweep_curve_shape_witness:
  "sweep demo_lib [0, 1, 2, 3] [0, 1, 0, 1] [1 / 2, 1 / 4] 2 42
      [(''c'', Coin), (''a'', First 0)] 0 =
     ([''training c'', ''training a''],
      Inr ([\<lparr>scatter_x = [1 / 2, 3 / 4], scatter_y = [Some (1 / 2), Some 1],
              scatter_mode = ''lines'', scatter_name = ''c''\<rparr>,
            \<lparr>scatter_x = [1 / 2, 3 / 4], scatter_y = [Some (1 / 2), Some 1],
              scatter_mode = ''lines'', scatter_name = ''a''\<rparr>], 4)) \<and>
   classifiers_run demo_lib [0, 1, 2, 3] [0, 1, 0, 1] [1 / 2, 1 / 4] 2 42
      [(''c'', Coin), (''a'', First 0)] 0
      [\<lparr>scatter_x = [1 / 2, 3 / 4], scatter_y = [Some (1 / 2), Some 1],
              scatter_mode = ''lines'', scatter_name = ''c''\<rparr>,
       \<lparr>scatter_x = [1 / 2, 3 / 4], scatter_y = [Some (1 / 2), Some 1],
              scatter_mode = ''lines'', scatter_name = ''a''\<rparr>] 4 \<and>
   (\<exists>v. [Some (1 / 2), Some (1 :: real)] ! 1 = Some v \<and> 0 \<le> v \<and> v \<le> 1)"
proof -
  let ?c = "\<lparr>scatter_x = [1 / 2, 3 / 4], scatter_y = [Some (1 / 2), Some 1],
              scatter_mode = ''lines'', scatter_name = ''c''\<rparr>"
  let ?a = "\<lparr>scatter_x = [1 / 2, 3 / 4], scatter_y = [Some (1 / 2), Some 1],
              scatter_mode = ''lines'', scatter_name = ''a''\<rparr>"
  let ?cs = "[(''c'', Coin), (''a'', First 0)]"
  have run: "sweep demo_lib [0, 1, 2, 3] [0, 1, 0, 1] [1 / 2, 1 / 4] 2 42 ?cs 0 =
     ([''training c'', ''training a''], Inr ([?c, ?a], 4))"
    by code_simp
  note inst = sweep_curve_shape [OF run]
  from inst have cr: "classifiers_run demo_lib [0, 1, 2, 3] [0, 1, 0, 1] [1 / 2, 1 / 4] 2 42
      ?cs 0 [?c, ?a] 4"
    by blast
  from inst have "\<forall>k<length ?cs.
      (0 < (2 :: int) \<and> split_contract demo_lib \<and> predict_contract demo_lib \<longrightarrow>
         (\<forall>j<length [1 / 2, 1 / 4 :: real].
            \<exists>v. scatter_y ([?c, ?a] ! k) ! j = Some v \<and> 0 \<le> v \<and> v \<le> 1))"
    by blast
  then have "\<exists>v. scatter_y ([?c, ?a] ! 1) ! 1 = Some v \<and> 0 \<le> v \<and> v \<le> 1"
    using demo_split_contract demo_predict_contract by simp
  then have "\<exists>v. [Some (1 / 2), Some (1 :: real)] ! 1 = Some v \<and> 0 \<le> v \<and> v \<le> 1"
    by simp
  with run cr show ?thesis by blast
qed

text \<open>
  C2. When the sweep completes, the value of classifier \<open>k\<close> at proportion \<open>j\<close> is
  \<^verbatim>\<open>np.mean\<close> of exactly \<open>rounds\<close> values: the error rates of \<open>rounds\<close> successive
  rounds at that proportion, the first started in the state reached after the classifiers
  before \<open>k\<close> and the proportions before \<open>j\<close>, each next one in the state the one before
  left. It is their sum divided by \<open>rounds\<close> when \<open>rounds\<close> is positive and none is
  \<open>nan\<close>, and when \<open>rounds\<close> is 1 it is the value of that single round.
\<close>

theorem curve_value_is_mean_of_rounds:
  assumes "sweep L X y hs rnds seed cs w = (out, Inr (data, w'))"
    and "k < length cs" and "j < length hs"
  shows "\<exists>wk s obs s'.
           classifiers_run L X y hs rnds seed (take k cs) w (take k data) wk \<and>
           proportions_run L X y rnds (take j hs) (RandomState L seed, snd (cs ! k), wk)
             (take j (scatter_y (data ! k))) s \<and>
           rounds_run L X y (hs ! j) (nat rnds) s obs s' \<and>
           length obs = nat rnds \<and>
           scatter_y (data ! k) ! j = np_mean obs \<and>
           (0 < rnds \<and> None \<notin> set obs \<longrightarrow>
              scatter_y (data ! k) ! j = Some (sum_list (map the obs) / real_of_int rnds)) \<and>
           (rnds = 1 \<longrightarrow>
              obs = [scatter_y (data ! k) ! j] \<and>
              round_body L X y (hs ! j) s = Inr (scatter_y (data ! k) ! j, s'))"
proof -
  from classifiers_run_take [OF sweep_run [OF assms(1)] assms(2)] obtain wk g clf' wk' where
    cr: "classifiers_run L X y hs rnds seed (take k cs) w (take k data) wk" and
    pr: "proportions_run L X y rnds hs (RandomState L seed, snd (cs ! k), wk)
           (scatter_y (data ! k)) (g, clf', wk')"
    by blast
  from proportions_run_take [OF pr assms(3)] obtain s obs s' where
    prj: "proportions_run L X y rnds (take j hs) (RandomState L seed, snd (cs ! k), wk)
            (take j (scatter_y (data ! k))) s" and
    rr: "rounds_run L X y (hs ! j) (nat rnds) s obs s'" and
    mean: "scatter_y (data ! k) ! j = np_mean obs"
    by blast
  from rr have len: "length obs = nat rnds"
    unfolding rounds_run_def by blast
  have formula: "scatter_y (data ! k) ! j = Some (sum_list (map the obs) / real_of_int rnds)"
    if "0 < rnds" "None \<notin> set obs"
  proof -
    have "obs \<noteq> []" using len that(1) by auto
    moreover have "real (length obs) = real_of_int rnds" using len that(1) by simp
    ultimately show ?thesis using mean that(2) by (simp add: np_mean_def)
  qed
  have single: "obs = [scatter_y (data ! k) ! j] \<and>
      round_body L X y (hs ! j) s = Inr (scatter_y (data ! k) ! j, s')" if "rnds = 1"
  proof -
    from rr that have "rounds_run L X y (hs ! j) (Suc 0) s obs s'" by simp
    from rounds_run_single [OF this] obtain v where
      "obs = [v]" "round_body L X y (hs ! j) s = Inr (v, s')" by blast
    then show ?thesis using mean by (simp add: np_mean_single)
  qed
  from cr prj rr len mean formula single show ?thesis by blast
qed

theorem curve_value_is_mean_of_rounds_witness:
  "(\<exists>wk s obs s'.
      classifiers_run demo_lib [0, 1, 2, 3] [0, 1, 0, 1] [1 / 2, 1 / 4] 2 42 [(''c'', Coin)] 0
        [\<lparr>scatter_x = [1 / 2, 3 / 4], scatter_y = [Some (1 / 2), Some 1],
           scatter_mode = ''lines'', scatter_name = ''c''\<rparr>] wk \<and>
      proportions_run demo_lib [0, 1, 2, 3] [0, 1, 0, 1] 2 [1 / 2] (42, First 0, wk)
        [Some (1 / 2)] s \<and>
      rounds_run demo_lib [0, 1, 2, 3] [0, 1, 0, 1] (1 / 4) 2 s obs s' \<and>
      length obs = 2 \<and> np_mean obs = Some 1 \<and> sum_list (map the obs) / 2 = 1) \<and>
   (\<exists>s'. round_body demo_lib [0, 1, 2, 3] [0, 1, 0, 1] (1 / 4) (42, First 0, 0) =
           Inr (Some 1, s'))"
proof -
  let ?L = "demo_lib"
  let ?X = "[0, 1, 2, 3] :: nat list"
  let ?Y = "[0, 1, 0, 1] :: nat list"
  let ?hs = "[1 / 2, 1 / 4] :: real list"
  let ?c = "\<lparr>scatter_x = [1 / 2, 3 / 4], scatter_y = [Some (1 / 2), Some 1],
              scatter_mode = ''lines'', scatter_name = ''c''\<rparr>"
  let ?a = "\<lparr>scatter_x = [1 / 2, 3 / 4], scatter_y = [Some (1 / 2), Some 1],
              scatter_mode = ''lines'', scatter_name = ''a''\<rparr>"
  let ?u = "\<lparr>scatter_x = [3 / 4], scatter_y = [Some 1],
              scatter_mode = ''lines'', scatter_name = ''a''\<rparr>"
  let ?cs = "[(''c'', Coin), (''a'', First 0)]"
  have rs: "RandomState ?L 42 = 42" by code_simp
  have run2: "sweep ?L ?X ?Y ?hs 2 42 ?cs 0 =
     ([''training c'', ''training a''], Inr ([?c, ?a], 4))"
    by code_simp
  have run1: "sweep ?L ?X ?Y [1 / 4] 1 42 [(''a'', First 0)] 0 =
     ([''training a''], Inr ([?u], 0))"
    by code_simp
  have k2: "1 < length ?cs" by simp
  have j2: "1 < length ?hs" by simp
  have k1: "0 < length [(''a'', First 0)]" by simp
  have j1: "0 < length [1 / 4 :: real]" by simp
  from curve_value_is_mean_of_rounds [OF run2 k2 j2] obtain wk s obs s' where
    cr: "classifiers_run ?L ?X ?Y ?hs 2 42 (take 1 ?cs) 0 (take 1 [?c, ?a]) wk" and
    pr: "proportions_run ?L ?X ?Y 2 (take 1 ?hs) (RandomState ?L 42, snd (?cs ! 1), wk)
           (take 1 (scatter_y ([?c, ?a] ! 1))) s" and
    rr: "rounds_run ?L ?X ?Y (?hs ! 1) (nat 2) s obs s'" and
    len: "length obs = nat 2" and
    mean: "scatter_y ([?c, ?a] ! 1) ! 1 = np_mean obs" and
    formula: "0 < (2 :: int) \<and> None \<notin> set obs \<longrightarrow>
      scatter_y ([?c, ?a] ! 1) ! 1 = Some (sum_list (map the obs) / real_of_int 2)"
    by blast
  have cr': "classifiers_run ?L ?X ?Y ?hs 2 42 [(''c'', Coin)] 0 [?c] wk"
    using cr by simp
  have pr': "proportions_run ?L ?X ?Y 2 [1 / 2] (42, First 0, wk) [Some (1 / 2)] s"
    using pr unfolding rs by simp
  have rr': "rounds_run ?L ?X ?Y (1 / 4) 2 s obs s'"
    using rr by simp
  have len': "length obs = 2" using len by simp
  have mean': "np_mean obs = Some 1" using mean by simp
  then have "None \<notin> set obs"
    by (auto simp: np_mean_def split: if_splits)
  with formula have sm: "sum_list (map the obs) / 2 = 1" by simp
  from cr' pr' rr' len' mean' sm have first:
    "\<exists>wk s obs s'.
      classifiers_run ?L ?X ?Y ?hs 2 42 [(''c'', Coin)] 0 [?c] wk \<and>
      proportions_run ?L ?X ?Y 2 [1 / 2] (42, First 0, wk) [Some (1 / 2)] s \<and>
      rounds_run ?L ?X ?Y (1 / 4) 2 s obs s' \<and>
      length obs = 2 \<and> np_mean obs = Some 1 \<and> sum_list (map the obs) / 2 = 1"
    by blast
  from curve_value_is_mean_of_rounds [OF run1 k1 j1] obtain wk1 t obs1 t' where
    cr1: "classifiers_run ?L ?X ?Y [1 / 4] 1 42 (take 0 [(''a'', First 0)]) 0 (take 0 [?u]) wk1" and
    pr1: "proportions_run ?L ?X ?Y 1 (take 0 [1 / 4]) (RandomState ?L 42, snd ([(''a'', First 0)] ! 0), wk1)
           (take 0 (scatter_y ([?u] ! 0))) t" and
    single: "(1 :: int) = 1 \<longrightarrow> obs1 = [scatter_y ([?u] ! 0) ! 0] \<and>
      round_body ?L ?X ?Y ([1 / 4] ! 0) t = Inr (scatter_y ([?u] ! 0) ! 0, t')"
    by blast
  from cr1 have wk1: "wk1 = 0" by (simp add: classifiers_run_Nil_iff)
  from pr1 have t: "t = (42, First 0, 0)"
    unfolding rs wk1 by (simp add: proportions_run_Nil_iff)
  from single have "round_body ?L ?X ?Y (1 / 4) (42, First 0, 0) = Inr (Some 1, t')"
    unfolding t by simp
  then have second:
    "\<exists>s'. round_body ?L ?X ?Y (1 / 4) (42, First 0, 0) = Inr (Some 1, s')"
    by blast
  from first second show ?thesis by blast
qed



text \<open>
  C4. One classifier's sweep is the run of its rounds, in the order of the schedule, on
  the generator states that splitting alone reaches from \<open>RandomState seed\<close>: the
  \<open>n\<close>-th split, with \<open>n = j * rounds + r\<close> for round \<open>r\<close> of proportion
  \<open>j\<close>, is drawn at the proportion \<open>hs ! (n div rounds)\<close> from the generator reached
  after the \<open>n\<close> splits before it. That state depends on the seed, the dataset and the
  proportions only, not on the classifier or on what it did.
\<close>

theorem splits_from_one_seeded_sequence:
  "curve L X y hs rnds seed clf w =
     (case run_schedule L X y
             (zip (schedule hs rnds) (draws L X y (schedule hs rnds) (RandomState L seed)))
             (clf, w) of
        Inl e \<Rightarrow> Inl e
      | Inr (vs, clf', w') \<Rightarrow>
          Inr (means (nat rnds) hs vs,
               rng_after L X y (schedule hs rnds) (RandomState L seed), clf', w')) \<and>
   length (draws L X y (schedule hs rnds) (RandomState L seed)) = length hs * nat rnds \<and>
   (\<forall>n<length hs * nat rnds.
      schedule hs rnds ! n = hs ! (n div nat rnds) \<and>
      draws L X y (schedule hs rnds) (RandomState L seed) ! n =
        rng_after L X y (take n (schedule hs rnds)) (RandomState L seed))"
  by (simp add: curve_schedule [symmetric] length_schedule schedule_nth draws_nth)

theorem splits_from_one_seeded_sequence_witness:
  "curve demo_lib [0, 1, 2, 3] [0, 1, 0, 1] [1 / 2, 1 / 4] 2 42 (First 0) 0 =
     Inr ([Some (1 / 2), Some 1], 46, First 0, 0) \<and>
   schedule [1 / 2, 1 / 4] 2 ! 3 = 1 / 4 \<and>
   draws demo_lib [0, 1, 2, 3] [0, 1, 0, 1] (schedule [1 / 2, 1 / 4] 2) 42 ! 3 = 45"
proof -
  let ?L = "demo_lib"
  note inst = splits_from_one_seeded_sequence
    [of ?L "[0, 1, 2, 3]" "[0, 1, 0, 1]" "[1 / 2, 1 / 4]" 2 42 "First 0" 0]
  have rs: "RandomState ?L 42 = 42" by code_simp
  have run: "run_schedule ?L [0, 1, 2, 3] [0, 1, 0, 1]
          (zip (schedule [1 / 2, 1 / 4] 2)
             (draws ?L [0, 1, 2, 3] [0, 1, 0, 1] (schedule [1 / 2, 1 / 4] 2) 42)) (First 0, 0) =
        Inr ([Some (1 / 2), Some (1 / 2), Some 1, Some 1], First 0, 0)"
    by code_simp
  have mn: "means (nat 2) [1 / 2, 1 / 4 :: real] [Some (1 / 2), Some (1 / 2), Some 1, Some 1] = [Some (1 / 2), Some 1]"
    by code_simp
  have after: "rng_after ?L [0, 1, 2, 3] [0, 1, 0, 1] (schedule [1 / 2, 1 / 4] 2) 42 = 46"
    by code_simp
  have at3: "rng_after ?L [0, 1, 2, 3] [0, 1, 0, 1] (take 3 (schedule [1 / 2, 1 / 4] 2)) 42 = 45"
    by code_simp
  have prop3: "[1 / 2, 1 / 4 :: real] ! (3 div nat 2) = 1 / 4"
    by code_simp
  have c: "curve ?L [0, 1, 2, 3] [0, 1, 0, 1] [1 / 2, 1 / 4] 2 42 (First 0) 0 =
     Inr ([Some (1 / 2), Some 1], 46, First 0, 0)"
    by (simp only: inst [THEN conjunct1] rs run mn after sum.case prod.case)
  have n: "3 < length [1 / 2, 1 / 4 :: real] * nat 2" by simp
  from inst [THEN conjunct2, THEN conjunct2, rule_format, OF n]
  have "schedule [1 / 2, 1 / 4] 2 ! 3 = [1 / 2, 1 / 4 :: real] ! (3 div nat 2) \<and>
      draws ?L [0, 1, 2, 3] [0, 1, 0, 1] (schedule [1 / 2, 1 / 4] 2) 42 ! 3 =
        rng_after ?L [0, 1, 2, 3] [0, 1, 0, 1] (take 3 (schedule [1 / 2, 1 / 4] 2)) 42"
    unfolding rs .
  then have "schedule [1 / 2, 1 / 4] 2 ! 3 = 1 / 4 \<and>
      draws ?L [0, 1, 2, 3] [0, 1, 0, 1] (schedule [1 / 2, 1 / 4] 2) 42 ! 3 = 45"
    unfolding at3 prop3 .
  with c show ?thesis by blast
qed

text \<open>
  C5, as the specification states it, is that the generator is built once for the whole
  sweep and each classifier continues the sequence. The notebook builds the generator inside
  the loop over the classifiers: the sweep differs from the one with a single generator.
  For two equal classifiers the notebook gives two equal curves, and the sweep with a
  single generator does not.
\<close>

theorem seeded_once_counterexample:
  "sweep demo_lib [0, 1, 2, 3] [0, 0, 1, 1] [1 / 2] 1 42
      [(''a'', First 0), (''b'', First 0)] 0 =
     ([''training a'', ''training b''],
      Inr ([\<lparr>scatter_x = [1 / 2], scatter_y = [Some 1], scatter_mode = ''lines'',
              scatter_name = ''a''\<rparr>,
            \<lparr>scatter_x = [1 / 2], scatter_y = [Some 1], scatter_mode = ''lines'',
              scatter_name = ''b''\<rparr>], 0)) \<and>
   sweep_one_rng demo_lib [0, 1, 2, 3] [0, 0, 1, 1] [1 / 2] 1 42
      [(''a'', First 0), (''b'', First 0)] 0 =
     ([''training a'', ''training b''],
      Inr ([\<lparr>scatter_x = [1 / 2], scatter_y = [Some 1], scatter_mode = ''lines'',
              scatter_name = ''a''\<rparr>,
            \<lparr>scatter_x = [1 / 2], scatter_y = [Some (1 / 2)], scatter_mode = ''lines'',
              scatter_name = ''b''\<rparr>], 0)) \<and>
   sweep demo_lib [0, 1, 2, 3] [0, 0, 1, 1] [1 / 2] 1 42
      [(''a'', First 0), (''b'', First 0)] 0 \<noteq>
   sweep_one_rng demo_lib [0, 1, 2, 3] [0, 0, 1, 1] [1 / 2] 1 42
      [(''a'', First 0), (''b'', First 0)] 0"
  by code_simp

text \<open>
  C5, amended. When the sweep completes, the curve of every classifier is the means of
  its rounds run on the generator states that splitting reaches from \<open>RandomState seed\<close>:
  the generator is built again from the seed for each classifier, so each classifier
  restarts the same sequence.
\<close>

theorem each_classifier_restarts_the_sequence:
  assumes "sweep L X y hs rnds seed cs w = (out, Inr (data, w'))" and "k < length cs"
  shows "\<exists>w1 vs clf' w2.
           run_schedule L X y
             (zip (schedule hs rnds) (draws L X y (schedule hs rnds) (RandomState L seed)))
             (snd (cs ! k), w1) = Inr (vs, clf', w2) \<and>
           scatter_y (data ! k) = means (nat rnds) hs vs"
proof -
  let ?pgs = "zip (schedule hs rnds) (draws L X y (schedule hs rnds) (RandomState L seed))"
  from sweep_values [OF assms(1)] assms(2) obtain w1 s2 where
    cur: "curve L X y hs rnds seed (snd (cs ! k)) w1 = Inr (scatter_y (data ! k), s2)"
    by blast
  show ?thesis
  proof (cases "run_schedule L X y ?pgs (snd (cs ! k), w1)")
    case (Inl e)
    with cur show ?thesis unfolding curve_schedule by simp
  next
    case (Inr r)
    obtain vs clf' w2 where r: "r = (vs, clf', w2)" by (cases r)
    from cur have "scatter_y (data ! k) = means (nat rnds) hs vs"
      unfolding curve_schedule Inr r by simp
    with Inr r show ?thesis by blast
  qed
qed

theorem each_classifier_restarts_the_sequence_witness:
  "\<exists>w1 vs clf' w2.
     run_schedule demo_lib [0, 1, 2, 3] [0, 0, 1, 1]
       (zip (schedule [1 / 2] 1)
          (draws demo_lib [0, 1, 2, 3] [0, 0, 1, 1] (schedule [1 / 2] 1) 42))
       (First 0, w1) = Inr (vs, clf', w2) \<and>
     [Some 1] = means 1 [1 / 2 :: real] vs"
proof -
  let ?L = "demo_lib"
  let ?a = "\<lparr>scatter_x = [1 / 2], scatter_y = [Some 1],
              scatter_mode = ''lines'', scatter_name = ''a''\<rparr>"
  let ?b = "\<lparr>scatter_x = [1 / 2], scatter_y = [Some 1],
              scatter_mode = ''lines'', scatter_name = ''b''\<rparr>"
  let ?cs = "[(''a'', First 0), (''b'', First 0)]"
  have run: "sweep ?L [0, 1, 2, 3] [0, 0, 1, 1] [1 / 2] 1 42 ?cs 0 =
     ([''training a'', ''training b''], Inr ([?a, ?b], 0))"
    by code_simp
  have k: "1 < length ?cs" by simp
  have rs: "RandomState ?L 42 = 42" by code_simp
  from each_classifier_restarts_the_sequence [OF run k] show ?thesis
    unfolding rs by simp
qed

text \<open>
  C6. For classifiers that are deterministic, two runs of the sweep on the same library,
  dataset, configuration and classifiers, from any two ambient states, print the same
  lines and end with the same exception or with the same traces, every curve value equal.
\<close>

theorem sweep_reproducible:
  assumes "deterministic L S" and "snd ` set cs \<subseteq> S"
  shows "fst (sweep L X y hs rnds seed cs w1) = fst (sweep L X y hs rnds seed cs w2) \<and>
         outcome (snd (sweep L X y hs rnds seed cs w1)) =
         outcome (snd (sweep L X y hs rnds seed cs w2))"
  unfolding sweep_def by (rule classifiers_loop_deterministic [OF assms])

theorem sweep_reproducible_witness:
  "fst (sweep demo_lib [0, 1, 2, 3] [0, 1, 0, 1] [1 / 2, 1 / 4] 2 42
          [(''a'', First 0), (''b'', First 1)] 0) =
   fst (sweep demo_lib [0, 1, 2, 3] [0, 1, 0, 1] [1 / 2, 1 / 4] 2 42
          [(''a'', First 0), (''b'', First 1)] 7) \<and>
   outcome (snd (sweep demo_lib [0, 1, 2, 3] [0, 1, 0, 1] [1 / 2, 1 / 4] 2 42
          [(''a'', First 0), (''b'', First 1)] 0)) =
   outcome (snd (sweep demo_lib [0, 1, 2, 3] [0, 1, 0, 1] [1 / 2, 1 / 4] 2 42
          [(''a'', First 0), (''b'', First 1)] 7))"
proof -
  have "snd ` set [(''a'', First 0), (''b'', First 1)] \<subseteq> range First"
    by simp
  from sweep_reproducible [OF demo_deterministic this] show ?thesis .
qed

text \<open>
  C7, as the specification states it, is that an empty list of proportions or a number of
  rounds that is not positive is reported as an error. The notebook has no such check: the
  sweep completes, with empty curves or with \<open>nan\<close> values.
\<close>

theorem no_configuration_error_counterexample:
  "snd (sweep demo_lib [0, 1, 2, 3] [0, 1, 0, 1] [] 2 42 [(''a'', Fragile 0)] 0) =
     Inr ([\<lparr>scatter_x = [], scatter_y = [], scatter_mode = ''lines'',
             scatter_name = ''a''\<rparr>], 0) \<and>
   snd (sweep demo_lib [0, 1, 2, 3] [0, 1, 0, 1] [1 / 2] 0 42 [(''a'', Fragile 0)] 0) =
     Inr ([\<lparr>scatter_x = [1 / 2], scatter_y = [None], scatter_mode = ''lines'',
             scatter_name = ''a''\<rparr>], 0)"
  by code_simp

text \<open>
  C7, amended. With an empty list of proportions or a number of rounds that is not
  positive, the sweep raises nothing and runs no round: it prints one line per
  classifier, leaves the ambient state as it was, and returns for each classifier a trace
  whose curve has \<open>nan\<close> at every proportion (no value at all for an empty list),
  whatever the splitter and the classifiers are.
\<close>

theorem empty_configuration_runs_nothing:
  assumes "hs = [] \<or> rnds \<le> 0"
  shows "sweep L X y hs rnds seed cs w =
     (printed cs,
      Inr (map (\<lambda>nc. \<lparr>scatter_x = xx hs, scatter_y = map (\<lambda>h. None) hs,
                        scatter_mode = ''lines'', scatter_name = fst nc\<rparr>) cs, w))"
  unfolding sweep_def by (simp add: classifiers_loop_nothing_to_run [OF assms])

theorem empty_configuration_runs_nothing_witness:
  "sweep demo_lib [0, 1, 2, 3] [0, 1, 0, 1] [1 / 2, 1 / 4] (- 3) 42
      [(''a'', Fragile 0), (''c'', Coin)] 0 =
     ([''training a'', ''training c''],
      Inr ([\<lparr>scatter_x = [1 / 2, 3 / 4], scatter_y = [None, None],
              scatter_mode = ''lines'', scatter_name = ''a''\<rparr>,
            \<lparr>scatter_x = [1 / 2, 3 / 4], scatter_y = [None, None],
              scatter_mode = ''lines'', scatter_name = ''c''\<rparr>], 0))"
proof -
  have h: "[1 / 2, 1 / 4 :: real] = [] \<or> (- 3 :: int) \<le> 0" by simp
  show ?thesis
    by (simp add: empty_configuration_runs_nothing [OF h] printed_def xx_def)
qed



text \<open>
  C9, as the specification states it, includes that the failure carries the name of the
  classifier, the proportion and the index of the round. The notebook catches nothing and
  adds nothing: a failure in the first round of classifier \<open>a\<close> at proportion 1/2 and
  a failure in the second round of classifier \<open>b\<close> at its second proportion are the
  same value.
\<close>

theorem failure_without_context_counterexample:
  "sweep demo_lib [0, 1, 2, 3] [0, 1, 0, 1] [1 / 2] 1 42 [(''a'', Fragile 0)] 0 =
     ([''training a''], Inl ''fit failed'') \<and>
   sweep demo_lib [0, 1, 2, 3] [0, 1, 0, 1] [1 / 4, 1 / 2] 2 42
      [(''b'', Fragile 3), (''c'', First 0)] 0 =
     ([''training b''], Inl ''fit failed'')"
  by code_simp

text \<open>
  C9, amended. If the classifiers before have completed, the proportions before have
  completed for this classifier, \<open>r\<close> rounds have completed at proportion \<open>i\<close> with
  \<open>r\<close> less than rounds, and the next round raises \<open>e\<close>, then the sweep ends with
  \<open>e\<close> itself, after the line printed for this classifier: whatever proportions,
  rounds and classifiers remain, none is run, and there is no retry. The exception is the
  one the split, \<^verbatim>\<open>fit\<close> or \<^verbatim>\<open>predict\<close> of that round raised, with nothing added.
\<close>

theorem failure_ends_the_sweep_unchanged:
  assumes pre: "sweep L X y (hs1 @ i # hs2) rnds seed pre w = (out, Inr (data, w1))"
    and props: "heldout_loop L X y rnds hs1 (RandomState L seed, clf, w1) [] = Inr (yy, s1)"
    and r: "r < nat rnds"
    and rnd: "rounds_loop L X y i r s1 [] = Inr (yy', rng, clf2, w2)"
    and fail: "round_body L X y i (rng, clf2, w2) = Inl e"
  shows "sweep L X y (hs1 @ i # hs2) rnds seed (pre @ (name, clf) # post) w =
           (out @ [''training '' @ name], Inl e) \<and>
         (train_test_split L X y i rng = Inl e \<or>
          (\<exists>X_train X_test y_train y_test rng'.
             train_test_split L X y i rng = Inr ((X_train, X_test, y_train, y_test), rng') \<and>
             (fit L clf2 X_train y_train w2 = Inl e \<or>
              (\<exists>clf' w'. fit L clf2 X_train y_train w2 = Inr (clf', w') \<and>
                         predict L clf' X_test w' = Inl e))))"
proof -
  from r obtain m where m: "nat rnds = r + Suc m"
    by (metis less_iff_Suc_add add_Suc_right)
  have "rounds_loop L X y i (nat rnds) s1 [] = Inl e"
    unfolding m rounds_loop_add using rnd fail by simp
  then have "heldout_loop L X y rnds (i # hs2) s1 yy = Inl e"
    by simp
  then have "heldout_loop L X y rnds (hs1 @ i # hs2) (RandomState L seed, clf, w1) [] = Inl e"
    unfolding heldout_loop_append using props by simp
  then have cur: "curve L X y (hs1 @ i # hs2) rnds seed clf w1 = Inl e"
    by (simp add: curve_def)
  have "classifiers_loop L X y (hs1 @ i # hs2) rnds seed ((name, clf) # post) out data w1 =
          (out @ [''training '' @ name], Inl e)"
    using cur by (simp add: Let_def)
  then have "sweep L X y (hs1 @ i # hs2) rnds seed (pre @ (name, clf) # post) w =
           (out @ [''training '' @ name], Inl e)"
    unfolding sweep_def classifiers_loop_append using pre [unfolded sweep_def] by simp
  with round_body_error_source [OF fail] show ?thesis by blast
qed

theorem failure_ends_the_sweep_unchanged_witness:
  "sweep demo_lib [0, 1, 2, 3] [0, 1, 0, 1] [1 / 4, 1 / 2] 2 42
      [(''b'', Fragile 3), (''c'', First 0)] 0 =
     ([''training b''], Inl ''fit failed'') \<and>
   train_test_split demo_lib [0, 1, 2, 3] [0, 1, 0, 1] (1 / 2) 45 =
     Inr (([3, 0], [1, 2], [1, 0], [1, 0]), 46) \<and>
   fit demo_lib (Fragile 0) [3, 0] [1, 0] 0 = Inl ''fit failed''"
proof -
  let ?L = "demo_lib"
  let ?X = "[0, 1, 2, 3] :: nat list"
  let ?Y = "[0, 1, 0, 1] :: nat list"
  have pre: "sweep ?L ?X ?Y ([1 / 4] @ 1 / 2 # []) 2 42 [] 0 = ([], Inr ([], 0))"
    by code_simp
  have props: "heldout_loop ?L ?X ?Y 2 [1 / 4] (RandomState ?L 42, Fragile 3, 0) [] =
      Inr ([Some (1 / 2)], 44, Fragile 1, 0)"
    by code_simp
  have r: "1 < nat 2" by simp
  have rnd: "rounds_loop ?L ?X ?Y (1 / 2) 1 (44, Fragile 1, 0) [] =
      Inr ([Some (1 / 2)], 45, Fragile 0, 0)"
    by code_simp
  have fail: "round_body ?L ?X ?Y (1 / 2) (45, Fragile 0, 0) = Inl ''fit failed''"
    by code_simp
  have sp: "train_test_split ?L ?X ?Y (1 / 2) 45 = Inr (([3, 0], [1, 2], [1, 0], [1, 0]), 46)"
    by code_simp
  have ft: "fit ?L (Fragile 0) [3, 0] [1, 0] 0 = Inl ''fit failed''"
    by code_simp
  from failure_ends_the_sweep_unchanged
    [OF pre props r rnd fail, of "''b''" "[(''c'', First 0)]"]
  have "sweep ?L ?X ?Y [1 / 4, 1 / 2] 2 42 [(''b'', Fragile 3), (''c'', First 0)] 0 =
     ([''training b''], Inl ''fit failed'')"
    by simp
  with sp ft show ?thesis by blast
qed

text \<open>
  C10. When the sweep completes and the classifier at position \<open>k\<close> is deterministic,
  the sweep with that classifier alone, from any ambient state, completes with the same
  trace for it, whatever the other classifiers of the list are and do.
\<close>

theorem curve_independent_of_other_classifiers:
  assumes det: "deterministic L S"
    and run: "sweep L X y hs rnds seed cs w = (out, Inr (data, w'))"
    and k: "k < length cs" and clf: "snd (cs ! k) \<in> S"
  shows "\<exists>w''. sweep L X y hs rnds seed [cs ! k] w0 =
           ([''training '' @ fst (cs ! k)], Inr ([data ! k], w''))"
proof -
  obtain name c where nc: "cs ! k = (name, c)" by (cases "cs ! k")
  from sweep_values [OF run] k obtain w1 s2 where
    nm: "scatter_name (data ! k) = name" and
    sx: "scatter_x (data ! k) = xx hs" and
    md: "scatter_mode (data ! k) = ''lines''" and
    cur: "curve L X y hs rnds seed c w1 = Inr (scatter_y (data ! k), s2)"
    unfolding nc by (metis fst_conv snd_conv nc)
  have c: "c \<in> S" using clf nc by simp
  from curve_deterministic [OF det c, where X = X and y = y and hs = hs and rnds = rnds
      and seed = seed and ?w1.0 = w1 and ?w2.0 = w0]
  obtain g' clf' w'' where
    cur0: "curve L X y hs rnds seed c w0 = Inr (scatter_y (data ! k), g', clf', w'')"
    using cur by (cases rule: loop_outcome_eq_cases) auto
  have "\<lparr>scatter_x = xx hs, scatter_y = scatter_y (data ! k),
          scatter_mode = ''lines'', scatter_name = name\<rparr> = data ! k"
    using nm sx md by simp
  then have "sweep L X y hs rnds seed [(name, c)] w0 =
           ([''training '' @ name], Inr ([data ! k], w''))"
    using cur0 by (simp add: sweep_def Let_def)
  then show ?thesis unfolding nc by auto
qed

theorem curve_independent_of_other_classifiers_witness:
  "sweep demo_lib [0, 1, 2, 3] [0, 1, 0, 1] [1 / 2, 1 / 4] 2 42
      [(''c'', Coin), (''a'', First 0)] 0 =
     ([''training c'', ''training a''],
      Inr ([\<lparr>scatter_x = [1 / 2, 3 / 4], scatter_y = [Some (1 / 2), Some 1],
              scatter_mode = ''lines'', scatter_name = ''c''\<rparr>,
            \<lparr>scatter_x = [1 / 2, 3 / 4], scatter_y = [Some (1 / 2), Some 1],
              scatter_mode = ''lines'', scatter_name = ''a''\<rparr>], 4)) \<and>
   (\<exists>w''. sweep demo_lib [0, 1, 2, 3] [0, 1, 0, 1] [1 / 2, 1 / 4] 2 42
             [(''a'', First 0)] 5 =
           ([''training a''],
            Inr ([\<lparr>scatter_x = [1 / 2, 3 / 4], scatter_y = [Some (1 / 2), Some 1],
                    scatter_mode = ''lines'', scatter_name = ''a''\<rparr>], w'')))"
proof -
  let ?c = "\<lparr>scatter_x = [1 / 2, 3 / 4], scatter_y = [Some (1 / 2), Some 1],
              scatter_mode = ''lines'', scatter_name = ''c''\<rparr>"
  let ?a = "\<lparr>scatter_x = [1 / 2, 3 / 4], scatter_y = [Some (1 / 2), Some 1],
              scatter_mode = ''lines'', scatter_name = ''a''\<rparr>"
  let ?cs = "[(''c'', Coin), (''a'', First 0)]"
  have run: "sweep demo_lib [0, 1, 2, 3] [0, 1, 0, 1] [1 / 2, 1 / 4] 2 42 ?cs 0 =
     ([''training c'', ''training a''], Inr ([?c, ?a], 4))"
    by code_simp
  have k: "1 < length ?cs" by simp
  have S: "snd (?cs ! 1) \<in> range First" by simp
  from curve_independent_of_other_classifiers [OF demo_deterministic run k S, of 5]
  have "\<exists>w''. sweep demo_lib [0, 1, 2, 3] [0, 1, 0, 1] [1 / 2, 1 / 4] 2 42
             [(''a'', First 0)] 5 = ([''training a''], Inr ([?a], w''))"
    by simp
  with run show ?thesis by blast
qed

end
